theory Spec2Isabelle
  imports
    Complex_Main
    "HOL-Library.AList"
    "HOL-Library.Char_ord"
    "HOL-Library.List_Lexorder"
    "HOL-Library.Multiset"
    "HOL-Library.Product_Lexorder"
begin

section \<open>Tables\<close>

text \<open>
  The dashboard keeps its trades and its views in pandas tables. A cell of a table is
  dynamically typed: a missing value (NaN, and NaT in a date index), a string, a number or
  a timestamp. Numbers are exact rationals here: the rounding of float64 arithmetic and the
  wrap-around of int64 sums are left out, so sums and quotients are the exact ones.
\<close>

datatype cell = NaN | Str string | Num rat | Stamp int

datatype pyerror =
  FileNotFoundError | ReadError | KeyError string | TypeError | ValueError | AttributeError

text \<open>
  A DataFrame: the row labels and the columns, each column a label with one cell per row.
  A Series with its index is a list of (label, value) pairs.
\<close>

record 'l frame =
  index :: "cell list"
  columns :: "('l \<times> cell list) list"

type_synonym series = "(cell \<times> cell) list"

text \<open>
  A frame as pandas builds it has one cell in every column for every row label, and the
  pipeline works on frames whose column labels are distinct.
\<close>

definition wellformed :: "'l frame \<Rightarrow> bool" where
  "wellformed df \<longleftrightarrow>
     distinct (map fst (columns df)) \<and>
     list_all (\<lambda>kc. length (snd kc) = length (index df)) (columns df)"

text \<open>\<^verbatim>\<open>df[k]\<close>: the column, or nothing where pandas raises KeyError.\<close>

definition getitem :: "'l frame \<Rightarrow> 'l \<Rightarrow> cell list option" where
  "getitem df k = map_of (columns df) k"

text \<open>\<^verbatim>\<open>df[k] = cs\<close>: replaces the column in place, or appends a new one.\<close>

definition setitem :: "'l frame \<Rightarrow> 'l \<Rightarrow> cell list \<Rightarrow> 'l frame" where
  "setitem df k cs = df\<lparr>columns := AList.update k cs (columns df)\<rparr>"

definition drop_column :: "'l frame \<Rightarrow> 'l \<Rightarrow> 'l frame" where
  "drop_column df k = df\<lparr>columns := filter (\<lambda>kc. fst kc \<noteq> k) (columns df)\<rparr>"

text \<open>\<^verbatim>\<open>df.rename(columns=m)\<close>: labels that are keys of \<open>m\<close> change, the others stay.\<close>

definition rename_label :: "('l \<times> 'l) list \<Rightarrow> 'l \<Rightarrow> 'l" where
  "rename_label m k = (case map_of m k of None \<Rightarrow> k | Some k' \<Rightarrow> k')"

definition rename :: "'l frame \<Rightarrow> ('l \<times> 'l) list \<Rightarrow> 'l frame" where
  "rename df m = df\<lparr>columns := map (\<lambda>kc. (rename_label m (fst kc), snd kc)) (columns df)\<rparr>"

text \<open>\<^verbatim>\<open>df.fillna(v)\<close> fills the missing cells of every column; the index is not touched.\<close>

definition fill :: "cell \<Rightarrow> cell \<Rightarrow> cell" where
  "fill v c = (if c = NaN then v else c)"

definition fillna :: "'l frame \<Rightarrow> cell \<Rightarrow> 'l frame" where
  "fillna df v = df\<lparr>columns := map (\<lambda>kc. (fst kc, map (fill v) (snd kc))) (columns df)\<rparr>"

text \<open>\<^verbatim>\<open>series.replace(m)\<close>: a cell equal to a key of \<open>m\<close> becomes that key's value.\<close>

definition replace1 :: "(cell \<times> cell) list \<Rightarrow> cell \<Rightarrow> cell" where
  "replace1 m c = (case map_of m c of None \<Rightarrow> c | Some c' \<Rightarrow> c')"

definition replace :: "(cell \<times> cell) list \<Rightarrow> cell list \<Rightarrow> cell list" where
  "replace m cs = map (replace1 m) cs"

definition isin :: "cell list \<Rightarrow> cell list \<Rightarrow> bool list" where
  "isin cs vs = map (\<lambda>c. c \<in> set vs) cs"

text \<open>\<^verbatim>\<open>df[mask]\<close>: the rows at which the boolean mask holds, in their order.\<close>

definition select :: "bool list \<Rightarrow> 'a list \<Rightarrow> 'a list" where
  "select keep xs = map snd (filter fst (zip keep xs))"

definition mask_rows :: "'l frame \<Rightarrow> bool list \<Rightarrow> 'l frame" where
  "mask_rows df keep =
     \<lparr>index = select keep (index df),
      columns = map (\<lambda>kc. (fst kc, select keep (snd kc))) (columns df)\<rparr>"

text \<open>
  \<^verbatim>\<open>pd.to_datetime(series)\<close>: a missing cell becomes NaT and a timestamp stays. What the
  library makes of a string or a number is the parameter \<open>conv\<close> (\<open>None\<close> where it raises);
  one cell that does not convert fails the whole call.
\<close>

fun to_datetime1 :: "(cell \<Rightarrow> int option) \<Rightarrow> cell \<Rightarrow> cell option" where
  "to_datetime1 conv NaN = Some NaN"
| "to_datetime1 conv (Stamp t) = Some (Stamp t)"
| "to_datetime1 conv c = map_option Stamp (conv c)"

definition to_datetime :: "(cell \<Rightarrow> int option) \<Rightarrow> cell list \<Rightarrow> pyerror + cell list" where
  "to_datetime conv cs =
     (case those (map (to_datetime1 conv) cs) of None \<Rightarrow> Inl ValueError | Some ds \<Rightarrow> Inr ds)"

section \<open>The dashboard object\<close>

text \<open>
  \<^verbatim>\<open>GenialDashboard.__init__\<close> sets the six attributes to \<open>None\<close>. A method either returns
  with the object updated, or raises with the object as the statements before the failing
  one left it.
\<close>

record dashboard =
  data :: "string frame option"
  net_sector_summary :: "string frame option"
  daily_evolution :: "cell frame option"
  evol_sector :: "(cell \<times> cell) frame option"
  total_net_by_type :: "series option"
  volume_total_by_type :: "series option"

definition init :: dashboard where
  "init = \<lparr>data = None, net_sector_summary = None, daily_evolution = None,
           evol_sector = None, total_net_by_type = None, volume_total_by_type = None\<rparr>"

datatype outcome = Done dashboard | Raised pyerror dashboard

type_synonym stmt = "dashboard \<Rightarrow> outcome"

fun run :: "stmt list \<Rightarrow> stmt" where
  "run [] s = Done s"
| "run (f # fs) s = (case f s of Done s' \<Rightarrow> run fs s' | Raised e s' \<Rightarrow> Raised e s')"

text \<open>
  An assignment statement: the right-hand side is evaluated on the object, and the
  attribute is stored only when it did not raise. Reading an attribute that is still
  \<open>None\<close> raises the error Python raises at that place.
\<close>

definition assign :: "(dashboard \<Rightarrow> pyerror + 'a) \<Rightarrow> ('a \<Rightarrow> dashboard \<Rightarrow> dashboard) \<Rightarrow> stmt" where
  "assign rhs store s = (case rhs s of Inl e \<Rightarrow> Raised e s | Inr v \<Rightarrow> Done (store v s))"

definition attr :: "pyerror \<Rightarrow> 'a option \<Rightarrow> ('a \<Rightarrow> pyerror + 'b) \<Rightarrow> pyerror + 'b" where
  "attr none_err a f = (case a of None \<Rightarrow> Inl none_err | Some x \<Rightarrow> f x)"

definition on_data :: "pyerror \<Rightarrow> (string frame \<Rightarrow> pyerror + string frame) \<Rightarrow> stmt" where
  "on_data none_err f = assign (\<lambda>s. attr none_err (data s) f) (\<lambda>v s. s\<lparr>data := Some v\<rparr>)"

section \<open>\<^verbatim>\<open>_clean_data\<close>\<close>

definition column_mapping :: "(string \<times> string) list" where
  "column_mapping =
     [(''CD_SETOR'', ''SECTOR''), (''CD_SUBSETOR'', ''SUB-SECTOR''),
      (''CD_SEGMENTO'', ''SEGMENT''), (''CONTA'', ''INV TYPE''),
      (''VL_COMPRA'', ''BUY R$''), (''VL_VENDA'', ''SELL R$''),
      (''VL_NET'', ''NET R$''), (''VL_TOTAL'', ''TOTAL'')]"

definition sector_mapping :: "(cell \<times> cell) list" where
  "sector_mapping = [(Str ''FII'', Str ''Others''), (Str ''IBOV'', Str ''Others'')]"

definition investor_mapping :: "(cell \<times> cell) list" where
  "investor_mapping =
     [(Str ''ESTRANGEIRO'', Str ''FOREIGNERS''), (Str ''LOCAL INSTITUCIONAL'', Str ''LOCALS''),
      (Str ''GENIAL'', Str ''RETAIL'')]"

definition valid_investors :: "cell list" where
  "valid_investors = [Str ''LOCALS'', Str ''FOREIGNERS'', Str ''RETAIL'']"

text \<open>Line 50: \<^verbatim>\<open>self.data.index = pd.to_datetime(self.data['DT_NEGOCIO'])\<close>.\<close>

definition set_date_index :: "(cell \<Rightarrow> int option) \<Rightarrow> string frame \<Rightarrow> pyerror + string frame" where
  "set_date_index conv df =
     (case getitem df ''DT_NEGOCIO'' of
        None \<Rightarrow> Inl (KeyError ''DT_NEGOCIO'')
      | Some dt \<Rightarrow>
          (case to_datetime conv dt of Inl e \<Rightarrow> Inl e | Inr ds \<Rightarrow> Inr (df\<lparr>index := ds\<rparr>)))"

text \<open>Line 51: \<^verbatim>\<open>self.data = self.data.drop(columns=['DT_NEGOCIO'])\<close>.\<close>

definition drop_date :: "string frame \<Rightarrow> pyerror + string frame" where
  "drop_date df =
     (case getitem df ''DT_NEGOCIO'' of
        None \<Rightarrow> Inl (KeyError ''DT_NEGOCIO'')
      | Some dt \<Rightarrow> Inr (drop_column df ''DT_NEGOCIO''))"

text \<open>Line 64: \<^verbatim>\<open>self.data.rename(columns=column_mapping, inplace=True)\<close>.\<close>

definition rename_columns :: "string frame \<Rightarrow> pyerror + string frame" where
  "rename_columns df = Inr (rename df column_mapping)"

text \<open>Line 67: \<^verbatim>\<open>self.data.fillna("Others", inplace=True)\<close>.\<close>

definition fill_others :: "string frame \<Rightarrow> pyerror + string frame" where
  "fill_others df = Inr (fillna df (Str ''Others''))"

text \<open>Line 70: \<^verbatim>\<open>self.data['SECTOR'] = self.data['SECTOR'].replace({...})\<close>.\<close>

definition standardize_sector :: "string frame \<Rightarrow> pyerror + string frame" where
  "standardize_sector df =
     (case getitem df ''SECTOR'' of
        None \<Rightarrow> Inl (KeyError ''SECTOR'')
      | Some secs \<Rightarrow> Inr (setitem df ''SECTOR'' (replace sector_mapping secs)))"

text \<open>Line 78: \<^verbatim>\<open>self.data['INV TYPE'] = self.data['INV TYPE'].replace(investor_mapping)\<close>.\<close>

definition standardize_investor :: "string frame \<Rightarrow> pyerror + string frame" where
  "standardize_investor df =
     (case getitem df ''INV TYPE'' of
        None \<Rightarrow> Inl (KeyError ''INV TYPE'')
      | Some invs \<Rightarrow> Inr (setitem df ''INV TYPE'' (replace investor_mapping invs)))"

text \<open>Line 82: \<^verbatim>\<open>self.data = self.data[self.data['INV TYPE'].isin(valid_investors)]\<close>.\<close>

definition filter_investors :: "string frame \<Rightarrow> pyerror + string frame" where
  "filter_investors df =
     (case getitem df ''INV TYPE'' of
        None \<Rightarrow> Inl (KeyError ''INV TYPE'')
      | Some invs \<Rightarrow> Inr (mask_rows df (isin invs valid_investors)))"

text \<open>
  The steps of \<^verbatim>\<open>_clean_data\<close> after the date column has become the index: rename, fill,
  the two remappings and the filter (lines 53 to 82).
\<close>

definition clean_values :: "stmt list" where
  "clean_values =
     [on_data AttributeError rename_columns,
      on_data AttributeError fill_others,
      on_data TypeError standardize_sector,
      on_data TypeError standardize_investor,
      on_data TypeError filter_investors]"

definition clean_data :: "(cell \<Rightarrow> int option) \<Rightarrow> stmt" where
  "clean_data conv =
     run ([on_data TypeError (set_date_index conv), on_data AttributeError drop_date]
          @ clean_values)"

section \<open>Grouping and pivoting\<close>

text \<open>
  A grouped sum adds the cells of a group with Python's \<open>+\<close>, missing cells skipped:
  numbers add, strings concatenate, anything else raises TypeError. A group with nothing
  left to add sums to 0.
\<close>

definition notna :: "cell \<Rightarrow> bool" where
  "notna c \<longleftrightarrow> c \<noteq> NaN"

fun cell_add :: "cell \<Rightarrow> cell \<Rightarrow> pyerror + cell" where
  "cell_add (Num a) (Num b) = Inr (Num (a + b))"
| "cell_add (Str a) (Str b) = Inr (Str (a @ b))"
| "cell_add _ _ = Inl TypeError"

fun sum_from :: "cell \<Rightarrow> cell list \<Rightarrow> pyerror + cell" where
  "sum_from acc [] = Inr acc"
| "sum_from acc (c # cs) =
     (case cell_add acc c of Inl e \<Rightarrow> Inl e | Inr acc' \<Rightarrow> sum_from acc' cs)"

definition agg_sum :: "cell list \<Rightarrow> pyerror + cell" where
  "agg_sum cs = (case filter notna cs of [] \<Rightarrow> Inr (Num 0) | c # rest \<Rightarrow> sum_from c rest)"

text \<open>\<^verbatim>\<open>x / 1_000_000\<close> on one cell.\<close>

fun scale :: "cell \<Rightarrow> pyerror + cell" where
  "scale (Num x) = Inr (Num (x / 1000000))"
| "scale NaN = Inr NaN"
| "scale _ = Inl TypeError"

fun traverse :: "('a \<Rightarrow> pyerror + 'b) \<Rightarrow> 'a list \<Rightarrow> pyerror + 'b list" where
  "traverse f [] = Inr []"
| "traverse f (x # xs) =
     (case f x of
        Inl e \<Rightarrow> Inl e
      | Inr y \<Rightarrow> (case traverse f xs of Inl e \<Rightarrow> Inl e | Inr ys \<Rightarrow> Inr (y # ys)))"

text \<open>
  Group labels come out sorted (\<^verbatim>\<open>groupby\<close> and \<^verbatim>\<open>pivot_table\<close> sort by default): strings
  in lexicographic order, timestamps in time order, numbers by value; across kinds,
  numbers first, then timestamps, then strings.
\<close>

fun cell_key :: "cell \<Rightarrow> nat \<times> rat \<times> int \<times> string" where
  "cell_key (Num x) = (0, x, 0, [])"
| "cell_key (Stamp t) = (1, 0, t, [])"
| "cell_key (Str s) = (2, 0, 0, s)"
| "cell_key NaN = (3, 0, 0, [])"

definition pair_key :: "cell \<times> cell \<Rightarrow> (nat \<times> rat \<times> int \<times> string) \<times> (nat \<times> rat \<times> int \<times> string)" where
  "pair_key k = (cell_key (fst k), cell_key (snd k))"

definition pair_notna :: "cell \<times> cell \<Rightarrow> bool" where
  "pair_notna k \<longleftrightarrow> notna (fst k) \<and> notna (snd k)"

definition group_keys :: "('k \<Rightarrow> 'o::linorder) \<Rightarrow> 'k list \<Rightarrow> 'k list" where
  "group_keys kf ks = sort_key kf (remdups ks)"

definition group_values :: "'k \<Rightarrow> ('k \<times> cell) list \<Rightarrow> cell list" where
  "group_values k rows = map snd (filter (\<lambda>kv. fst kv = k) rows)"

text \<open>
  \<^verbatim>\<open>groupby(keys)[col].sum()\<close> over rows of (key, cell): rows with a missing key label
  are left out, and there is one sum per remaining key, in the order of the keys.
\<close>

definition groupby_sum ::
  "('k \<Rightarrow> 'o::linorder) \<Rightarrow> ('k \<Rightarrow> bool) \<Rightarrow> ('k \<times> cell) list \<Rightarrow> pyerror + ('k \<times> cell) list" where
  "groupby_sum kf present rows =
     (let kept = filter (\<lambda>kv. present (fst kv)) rows
      in traverse
           (\<lambda>k. case agg_sum (group_values k kept) of Inl e \<Rightarrow> Inl e | Inr v \<Rightarrow> Inr (k, v))
           (group_keys kf (map fst kept)))"

text \<open>
  \<^verbatim>\<open>pivot_table(values, index, columns, aggfunc='sum')\<close> over rows of ((row label,
  column label), cell): the grouped sums, laid out with one row per row label and one
  column per column label that has a group; a combination with no group is a missing cell.
\<close>

definition pivot_sum ::
  "('c \<Rightarrow> 'o::linorder) \<Rightarrow> ('c \<Rightarrow> bool) \<Rightarrow> ((cell \<times> 'c) \<times> cell) list \<Rightarrow> pyerror + 'c frame" where
  "pivot_sum kf present rows =
     (case groupby_sum (\<lambda>dc. (cell_key (fst dc), kf (snd dc)))
             (\<lambda>dc. notna (fst dc) \<and> present (snd dc)) rows of
        Inl e \<Rightarrow> Inl e
      | Inr agged \<Rightarrow>
          (let dates = group_keys cell_key (map (\<lambda>kv. fst (fst kv)) agged)
           in Inr \<lparr>index = dates,
                  columns =
                    map (\<lambda>c. (c, map (\<lambda>d. case map_of agged (d, c) of None \<Rightarrow> NaN | Some v \<Rightarrow> v) dates))
                        (group_keys kf (map (\<lambda>kv. snd (fst kv)) agged))\<rparr>))"

definition scale_column :: "'l frame \<Rightarrow> 'l \<Rightarrow> ('l \<Rightarrow> pyerror) \<Rightarrow> pyerror + 'l frame" where
  "scale_column df k err =
     (case getitem df k of
        None \<Rightarrow> Inl (err k)
      | Some cs \<Rightarrow> (case traverse scale cs of Inl e \<Rightarrow> Inl e | Inr cs' \<Rightarrow> Inr (setitem df k cs')))"

definition scale_series :: "series \<Rightarrow> pyerror + series" where
  "scale_series sr =
     traverse (\<lambda>kv. case scale (snd kv) of Inl e \<Rightarrow> Inl e | Inr v \<Rightarrow> Inr (fst kv, v)) sr"

definition scale_frame :: "'l frame \<Rightarrow> pyerror + 'l frame" where
  "scale_frame df =
     (case traverse
             (\<lambda>kc. case traverse scale (snd kc) of Inl e \<Rightarrow> Inl e | Inr cs \<Rightarrow> Inr (fst kc, cs))
             (columns df) of
        Inl e \<Rightarrow> Inl e
      | Inr cols \<Rightarrow> Inr (df\<lparr>columns := cols\<rparr>))"

definition range_index :: "nat \<Rightarrow> cell list" where
  "range_index n = map (\<lambda>i. Num (of_nat i)) [0..<n]"

section \<open>\<^verbatim>\<open>_process_data\<close>\<close>

text \<open>
  Line 87, right-hand side:
  \<^verbatim>\<open>self.data.groupby(['INV TYPE', 'SECTOR'])['NET R$'].sum().reset_index()\<close>.
\<close>

definition sector_sums :: "string frame \<Rightarrow> pyerror + string frame" where
  "sector_sums df =
     (case getitem df ''INV TYPE'' of None \<Rightarrow> Inl (KeyError ''INV TYPE'') | Some invs \<Rightarrow>
      (case getitem df ''SECTOR'' of None \<Rightarrow> Inl (KeyError ''SECTOR'') | Some secs \<Rightarrow>
       (case getitem df ''NET R$'' of None \<Rightarrow> Inl (KeyError ''NET R$'') | Some nets \<Rightarrow>
        (case groupby_sum pair_key pair_notna (zip (zip invs secs) nets) of
           Inl e \<Rightarrow> Inl e
         | Inr g \<Rightarrow>
             Inr \<lparr>index = range_index (length g),
                  columns = [(''INV TYPE'', map (\<lambda>kv. fst (fst kv)) g),
                             (''SECTOR'', map (\<lambda>kv. snd (fst kv)) g),
                             (''NET R$'', map snd g)]\<rparr>))))"

text \<open>
  Lines 91 and 94, right-hand side:
  \<^verbatim>\<open>self.data.groupby('INV TYPE')[col].sum() / 1_000_000\<close>.
\<close>

definition type_sums :: "string \<Rightarrow> string frame \<Rightarrow> pyerror + series" where
  "type_sums col df =
     (case getitem df ''INV TYPE'' of None \<Rightarrow> Inl (KeyError ''INV TYPE'') | Some invs \<Rightarrow>
      (case getitem df col of None \<Rightarrow> Inl (KeyError col) | Some vals \<Rightarrow>
       (case groupby_sum cell_key notna (zip invs vals) of
          Inl e \<Rightarrow> Inl e
        | Inr g \<Rightarrow> scale_series g)))"

text \<open>
  Lines 97 to 102, right-hand side: \<^verbatim>\<open>self.data.pivot_table(values='NET R$',
  index=self.data.index, columns='INV TYPE', aggfunc='sum')\<close>.
\<close>

definition daily_pivot :: "string frame \<Rightarrow> pyerror + cell frame" where
  "daily_pivot df =
     (case getitem df ''NET R$'' of None \<Rightarrow> Inl (KeyError ''NET R$'') | Some nets \<Rightarrow>
      (case getitem df ''INV TYPE'' of None \<Rightarrow> Inl (KeyError ''INV TYPE'') | Some invs \<Rightarrow>
       pivot_sum cell_key notna (zip (zip (index df) invs) nets)))"

text \<open>Lines 107 to 112, right-hand side: the same with \<^verbatim>\<open>columns=['INV TYPE', 'SECTOR']\<close>.\<close>

definition sector_pivot :: "string frame \<Rightarrow> pyerror + (cell \<times> cell) frame" where
  "sector_pivot df =
     (case getitem df ''NET R$'' of None \<Rightarrow> Inl (KeyError ''NET R$'') | Some nets \<Rightarrow>
      (case getitem df ''INV TYPE'' of None \<Rightarrow> Inl (KeyError ''INV TYPE'') | Some invs \<Rightarrow>
       (case getitem df ''SECTOR'' of None \<Rightarrow> Inl (KeyError ''SECTOR'') | Some secs \<Rightarrow>
        pivot_sum pair_key pair_notna (zip (zip (index df) (zip invs secs)) nets))))"

text \<open>The ten statements of the method, lines 87 to 114, in their order.\<close>

definition process_statements :: "stmt list" where
  "process_statements =
       [assign (\<lambda>s. attr AttributeError (data s) sector_sums)
          (\<lambda>v s. s\<lparr>net_sector_summary := Some v\<rparr>),
        assign (\<lambda>s. attr TypeError (net_sector_summary s) (\<lambda>df. scale_column df ''NET R$'' KeyError))
          (\<lambda>v s. s\<lparr>net_sector_summary := Some v\<rparr>),
        assign (\<lambda>s. attr AttributeError (data s) (type_sums ''NET R$''))
          (\<lambda>v s. s\<lparr>total_net_by_type := Some v\<rparr>),
        assign (\<lambda>s. attr AttributeError (data s) (type_sums ''TOTAL''))
          (\<lambda>v s. s\<lparr>volume_total_by_type := Some v\<rparr>),
        assign (\<lambda>s. attr AttributeError (data s) daily_pivot)
          (\<lambda>v s. s\<lparr>daily_evolution := Some v\<rparr>),
        assign (\<lambda>s. attr AttributeError (daily_evolution s) (\<lambda>df. Inr (fillna df (Num 0))))
          (\<lambda>v s. s\<lparr>daily_evolution := Some v\<rparr>),
        assign (\<lambda>s. attr TypeError (daily_evolution s) scale_frame)
          (\<lambda>v s. s\<lparr>daily_evolution := Some v\<rparr>),
        assign (\<lambda>s. attr AttributeError (data s) sector_pivot)
          (\<lambda>v s. s\<lparr>evol_sector := Some v\<rparr>),
        assign (\<lambda>s. attr AttributeError (evol_sector s) (\<lambda>df. Inr (fillna df (Num 0))))
          (\<lambda>v s. s\<lparr>evol_sector := Some v\<rparr>),
        assign (\<lambda>s. attr TypeError (evol_sector s) scale_frame)
          (\<lambda>v s. s\<lparr>evol_sector := Some v\<rparr>)]"

definition process_data :: stmt where
  "process_data = run process_statements"

section \<open>\<^verbatim>\<open>load_data\<close>\<close>

text \<open>
  What the file system and the Excel reader hand to \<^verbatim>\<open>load_data\<close>: no matching file,
  a newest file that \<^verbatim>\<open>read_excel\<close> fails on, or the table it read. Every exception is
  caught and reported as \<open>False\<close>; the object stays as the failing statement found it.
\<close>

datatype excel = NoFile | Unreadable pyerror | Sheet "string frame"

fun read_excel :: "excel \<Rightarrow> pyerror + string frame" where
  "read_excel NoFile = Inl FileNotFoundError"
| "read_excel (Unreadable e) = Inl e"
| "read_excel (Sheet df) = Inr df"

definition load_data :: "(cell \<Rightarrow> int option) \<Rightarrow> excel \<Rightarrow> dashboard \<Rightarrow> bool \<times> dashboard" where
  "load_data conv x self =
     (case run [assign (\<lambda>s. read_excel x) (\<lambda>v s. s\<lparr>data := Some v\<rparr>),
                clean_data conv, process_data] self of
        Done s \<Rightarrow> (True, s)
      | Raised e s \<Rightarrow> (False, s))"

section \<open>\<^verbatim>\<open>get_top_bottom_sectors\<close>\<close>

text \<open>
  \<^verbatim>\<open>series == v\<close> compares cell by cell; a missing cell equals nothing.
  \<^verbatim>\<open>head(n)\<close> and \<^verbatim>\<open>tail(n)\<close> are \<^verbatim>\<open>iloc[:n]\<close> and \<^verbatim>\<open>iloc[-n:]\<close>, with \<^verbatim>\<open>tail(0)\<close> empty.
\<close>

definition eq_mask :: "cell list \<Rightarrow> cell \<Rightarrow> bool list" where
  "eq_mask cs v = map (\<lambda>c. c = v \<and> c \<noteq> NaN) cs"

definition head :: "int \<Rightarrow> 'a list \<Rightarrow> 'a list" where
  "head n xs = (if 0 \<le> n then take (nat n) xs else take (length xs - nat (- n)) xs)"

definition tail :: "int \<Rightarrow> 'a list \<Rightarrow> 'a list" where
  "tail n xs =
     (if n = 0 then [] else if 0 < n then drop (length xs - nat n) xs else drop (nat (- n)) xs)"

definition head_rows :: "int \<Rightarrow> 'l frame \<Rightarrow> 'l frame" where
  "head_rows n df =
     \<lparr>index = head n (index df), columns = map (\<lambda>kc. (fst kc, head n (snd kc))) (columns df)\<rparr>"

definition tail_rows :: "int \<Rightarrow> 'l frame \<Rightarrow> 'l frame" where
  "tail_rows n df =
     \<lparr>index = tail n (index df), columns = map (\<lambda>kc. (fst kc, tail n (snd kc))) (columns df)\<rparr>"

text \<open>
  \<^verbatim>\<open>sort_values(by, ascending=False)\<close> reorders the rows by the positions the library's
  argsort returns for the column. The argsort is a parameter: pandas sorts with numpy's
  default \<^verbatim>\<open>quicksort\<close>, which promises a descending order and nothing about ties.
\<close>

definition take_rows :: "'l frame \<Rightarrow> nat list \<Rightarrow> 'l frame" where
  "take_rows df ps =
     \<lparr>index = map (nth (index df)) ps,
      columns = map (\<lambda>kc. (fst kc, map (nth (snd kc)) ps)) (columns df)\<rparr>"

definition sort_values :: "(cell list \<Rightarrow> pyerror + nat list) \<Rightarrow> 'l frame \<Rightarrow> 'l \<Rightarrow> ('l \<Rightarrow> pyerror) \<Rightarrow> pyerror + 'l frame" where
  "sort_values argsort df by err =
     (case getitem df by of
        None \<Rightarrow> Inl (err by)
      | Some vs \<Rightarrow> (case argsort vs of Inl e \<Rightarrow> Inl e | Inr ps \<Rightarrow> Inr (take_rows df ps)))"

definition get_top_bottom_sectors ::
  "(cell list \<Rightarrow> pyerror + nat list) \<Rightarrow> dashboard \<Rightarrow> cell \<Rightarrow> int \<Rightarrow> pyerror + string frame \<times> string frame" where
  "get_top_bottom_sectors argsort self inv_type n =
     attr TypeError (net_sector_summary self) (\<lambda>summary.
       case getitem summary ''INV TYPE'' of
         None \<Rightarrow> Inl (KeyError ''INV TYPE'')
       | Some invs \<Rightarrow>
           (case sort_values argsort (mask_rows summary (eq_mask invs inv_type)) ''NET R$'' KeyError of
              Inl e \<Rightarrow> Inl e
            | Inr filtered \<Rightarrow> Inr (head_rows n filtered, tail_rows n filtered)))"

section \<open>Properties of \<^verbatim>\<open>_clean_data\<close>\<close>

text \<open>
  Statements that only rebind \<^verbatim>\<open>self.data\<close> compose to a function on frames: the chain
  of their right-hand sides, stopping at the first error.
\<close>

fun chain :: "('a \<Rightarrow> pyerror + 'a) list \<Rightarrow> 'a \<Rightarrow> pyerror + 'a" where
  "chain [] x = Inr x"
| "chain (f # fs) x = (case f x of Inl e \<Rightarrow> Inl e | Inr y \<Rightarrow> chain fs y)"

lemma run_append:
  "run (fs @ gs) s = (case run fs s of Done s' \<Rightarrow> run gs s' | Raised e s' \<Rightarrow> Raised e s')"
  by (induction fs arbitrary: s) (auto split: outcome.splits)

lemma on_data_Done:
  "on_data e f s = Done s' \<longleftrightarrow> (\<exists>df df'. data s = Some df \<and> f df = Inr df' \<and> s' = s\<lparr>data := Some df'\<rparr>)"
  by (auto simp: on_data_def assign_def attr_def split: option.splits sum.splits)

lemma run_on_data_Done:
  "data s = Some df \<Longrightarrow>
   run (map (\<lambda>ef. on_data (fst ef) (snd ef)) efs) s = Done s' \<longleftrightarrow>
   (\<exists>df'. chain (map snd efs) df = Inr df' \<and> s' = s\<lparr>data := Some df'\<rparr>)"
proof (induction efs arbitrary: s df)
  case Nil
  then show ?case by (cases s) auto
next
  case (Cons ef efs)
  show ?case
  proof (cases "snd ef df")
    case (Inl e)
    with Cons.prems show ?thesis
      by (simp add: on_data_def assign_def attr_def)
  next
    case (Inr d1)
    have step: "on_data (fst ef) (snd ef) s = Done (s\<lparr>data := Some d1\<rparr>)"
      using Cons.prems Inr by (simp add: on_data_def assign_def attr_def)
    have "data (s\<lparr>data := Some d1\<rparr>) = Some d1" by simp
    from Cons.IH[OF this, of ] step Inr show ?thesis by simp
  qed
qed

definition clean_frame :: "(cell \<Rightarrow> int option) \<Rightarrow> string frame \<Rightarrow> pyerror + string frame" where
  "clean_frame conv =
     chain [set_date_index conv, drop_date, rename_columns, fill_others,
            standardize_sector, standardize_investor, filter_investors]"

lemma clean_data_Done:
  "clean_data conv s = Done s' \<longleftrightarrow>
   (\<exists>df df'. data s = Some df \<and> clean_frame conv df = Inr df' \<and> s' = s\<lparr>data := Some df'\<rparr>)"
proof (cases "data s")
  case None
  then show ?thesis by (simp add: clean_data_def on_data_def assign_def attr_def)
next
  case (Some df)
  let ?efs = "[(TypeError, set_date_index conv), (AttributeError, drop_date),
       (AttributeError, rename_columns), (AttributeError, fill_others),
       (TypeError, standardize_sector), (TypeError, standardize_investor),
       (TypeError, filter_investors)]"
  have "clean_data conv = run (map (\<lambda>ef. on_data (fst ef) (snd ef)) ?efs)"
    by (simp add: clean_data_def clean_values_def)
  moreover have "clean_frame conv = chain (map snd ?efs)"
    by (simp add: clean_frame_def)
  ultimately show ?thesis
    using run_on_data_Done[OF Some, of ?efs s'] Some by (simp only: option.inject ex_simps simp_thms) 
qed


lemma map_of_map_snd:
  "map_of (map (\<lambda>kc. (fst kc, f (snd kc))) xs) k = map_option f (map_of xs k)"
  by (induction xs) auto

lemma getitem_index_update [simp]: "getitem (df\<lparr>index := ds\<rparr>) k = getitem df k"
  by (simp add: getitem_def)

lemma getitem_fillna: "getitem (fillna df v) k = map_option (map (fill v)) (getitem df k)"
  by (simp add: getitem_def fillna_def map_of_map_snd)

lemma getitem_mask_rows: "getitem (mask_rows df m) k = map_option (select m) (getitem df k)"
  by (simp add: getitem_def mask_rows_def map_of_map_snd)

lemma getitem_setitem: "getitem (setitem df k v) k' = (if k' = k then Some v else getitem df k')"
  by (simp add: getitem_def setitem_def update_conv')

lemma map_of_rename_filter:
  "f d \<noteq> k \<Longrightarrow>
   map_of (map (\<lambda>kc. (f (fst kc), snd kc)) (filter (\<lambda>kc. fst kc \<noteq> d) xs)) k =
   map_of (map (\<lambda>kc. (f (fst kc), snd kc)) xs) k"
  by (induction xs) auto

lemma rename_label_date [simp]: "rename_label column_mapping ''DT_NEGOCIO'' = ''DT_NEGOCIO''"
  by (simp add: rename_label_def column_mapping_def)

lemma getitem_rename_drop_date:
  "k \<noteq> ''DT_NEGOCIO'' \<Longrightarrow>
   getitem (rename (drop_column (df\<lparr>index := ds\<rparr>) ''DT_NEGOCIO'') column_mapping) k =
   getitem (rename df column_mapping) k"
  using map_of_rename_filter[of "rename_label column_mapping" "''DT_NEGOCIO''" k "columns df"]
  by (simp add: getitem_def rename_def drop_column_def)

definition prepared :: "string frame \<Rightarrow> cell list \<Rightarrow> string frame" where
  "prepared df ds =
     fillna (rename (drop_column (df\<lparr>index := ds\<rparr>) ''DT_NEGOCIO'') column_mapping) (Str ''Others'')"

definition remapped :: "string frame \<Rightarrow> cell list \<Rightarrow> cell list \<Rightarrow> string frame" where
  "remapped p secs invs =
     setitem (setitem p ''SECTOR'' (replace sector_mapping secs))
       ''INV TYPE'' (replace investor_mapping invs)"

lemma clean_frame_Inr:
  "clean_frame conv df = Inr out \<longleftrightarrow>
   (\<exists>dt ds secs invs.
      getitem df ''DT_NEGOCIO'' = Some dt \<and> to_datetime conv dt = Inr ds \<and>
      getitem (prepared df ds) ''SECTOR'' = Some secs \<and>
      getitem (prepared df ds) ''INV TYPE'' = Some invs \<and>
      out = mask_rows (remapped (prepared df ds) secs invs)
              (isin (replace investor_mapping invs) valid_investors))"
  by (auto simp: clean_frame_def set_date_index_def drop_date_def rename_columns_def
      fill_others_def standardize_sector_def standardize_investor_def filter_investors_def
      prepared_def remapped_def getitem_setitem
      split: option.splits sum.splits)


lemma select_isin: "select (isin cs vs) cs = filter (\<lambda>c. c \<in> set vs) cs"
  by (induction cs) (auto simp: select_def isin_def)

lemma set_select: "set (select m xs) \<subseteq> set xs"
  by (auto simp: select_def dest: set_zip_rightD)

lemma in_updateD: "kc \<in> set (AList.update k v al) \<Longrightarrow> kc = (k, v) \<or> kc \<in> set al"
  by (induction al) (auto split: if_splits)

lemma getitem_in_columns: "getitem df k = Some cs \<Longrightarrow> (k, cs) \<in> set (columns df)"
  by (simp add: getitem_def map_of_SomeD)

lemma fill_others_notna [simp]: "fill (Str s) c \<noteq> NaN" "NaN \<noteq> fill (Str s) c"
  by (simp_all add: fill_def)

lemma replace1_sector_NaN [simp]:
  "replace1 sector_mapping c = NaN \<longleftrightarrow> c = NaN" "NaN = replace1 sector_mapping c \<longleftrightarrow> c = NaN"
  by (auto simp: replace1_def sector_mapping_def)

lemma replace1_investor_NaN [simp]:
  "replace1 investor_mapping c = NaN \<longleftrightarrow> c = NaN" "NaN = replace1 investor_mapping c \<longleftrightarrow> c = NaN"
  by (auto simp: replace1_def investor_mapping_def)

lemma prepared_notna: "kc \<in> set (columns (prepared df ds)) \<Longrightarrow> NaN \<notin> set (snd kc)"
  by (auto simp: prepared_def fillna_def)

lemma replace_sector_notna: "NaN \<notin> set cs \<Longrightarrow> NaN \<notin> set (replace sector_mapping cs)"
  by (auto simp: replace_def)

lemma replace_investor_notna: "NaN \<notin> set cs \<Longrightarrow> NaN \<notin> set (replace investor_mapping cs)"
  by (auto simp: replace_def)

lemma remapped_notna:
  assumes "getitem p ''SECTOR'' = Some secs" "getitem p ''INV TYPE'' = Some invs"
    and p: "\<And>kc. kc \<in> set (columns p) \<Longrightarrow> NaN \<notin> set (snd kc)"
    and kc: "kc \<in> set (columns (remapped p secs invs))"
  shows "NaN \<notin> set (snd kc)"
proof -
  have "NaN \<notin> set secs" "NaN \<notin> set invs"
    using p[OF getitem_in_columns[OF assms(1)]] p[OF getitem_in_columns[OF assms(2)]] by simp_all
  then have n: "NaN \<notin> set (replace sector_mapping secs)" "NaN \<notin> set (replace investor_mapping invs)"
    by (simp_all add: replace_sector_notna replace_investor_notna)
  from kc have "kc \<in> set (AList.update ''INV TYPE'' (replace investor_mapping invs)
      (AList.update ''SECTOR'' (replace sector_mapping secs) (columns p)))"
    by (simp add: remapped_def setitem_def)
  then consider "kc = (''INV TYPE'', replace investor_mapping invs)"
    | "kc \<in> set (AList.update ''SECTOR'' (replace sector_mapping secs) (columns p))"
    using in_updateD by fast
  then show ?thesis
  proof cases
    case 1
    then show ?thesis by (simp add: n)
  next
    case 2
    then consider "kc = (''SECTOR'', replace sector_mapping secs)" | "kc \<in> set (columns p)"
      using in_updateD by fast
    then show ?thesis
    proof cases
      case 1
      then show ?thesis by (simp add: n)
    next
      case 2
      then show ?thesis by (rule p)
    qed
  qed
qed

lemma mask_rows_notna:
  assumes "\<And>kc. kc \<in> set (columns p) \<Longrightarrow> NaN \<notin> set (snd kc)"
    and "kc \<in> set (columns (mask_rows p m))"
  shows "NaN \<notin> set (snd kc)"
proof -
  from assms(2) obtain kc' where "kc' \<in> set (columns p)" "snd kc = select m (snd kc')"
    by (auto simp: mask_rows_def)
  with assms(1)[of kc'] set_select[of m "snd kc'"] show ?thesis by auto
qed

lemma clean_frame_notna:
  assumes "clean_frame conv df = Inr out" "kc \<in> set (columns out)"
  shows "NaN \<notin> set (snd kc)"
proof -
  from assms(1) obtain dt ds secs invs where
    h: "getitem (prepared df ds) ''SECTOR'' = Some secs"
       "getitem (prepared df ds) ''INV TYPE'' = Some invs"
       "out = mask_rows (remapped (prepared df ds) secs invs)
              (isin (replace investor_mapping invs) valid_investors)"
    unfolding clean_frame_Inr by blast
  show ?thesis
    using assms(2) unfolding h(3)
    by (rule mask_rows_notna[rotated]) (rule remapped_notna[OF h(1,2) prepared_notna])
qed

lemma clean_frame_investors:
  assumes "clean_frame conv df = Inr out"
  shows "\<exists>conta. getitem (rename df column_mapping) ''INV TYPE'' = Some conta \<and>
     getitem out ''INV TYPE'' =
       Some (filter (\<lambda>c. c \<in> set valid_investors)
              (map (\<lambda>c. replace1 investor_mapping (fill (Str ''Others'') c)) conta))"
proof -
  from assms obtain dt ds secs invs where
    h: "getitem (prepared df ds) ''INV TYPE'' = Some invs"
       "out = mask_rows (remapped (prepared df ds) secs invs)
              (isin (replace investor_mapping invs) valid_investors)"
    unfolding clean_frame_Inr by blast
  from h(1) obtain conta where c: "getitem (rename df column_mapping) ''INV TYPE'' = Some conta"
    "invs = map (fill (Str ''Others'')) conta"
    by (auto simp: prepared_def getitem_fillna getitem_rename_drop_date)
  have "getitem out ''INV TYPE'' =
      Some (select (isin (replace investor_mapping invs) valid_investors) (replace investor_mapping invs))"
    by (simp add: h(2) getitem_mask_rows remapped_def getitem_setitem)
  with c show ?thesis
    by (simp add: select_isin replace_def comp_def)
qed


lemma length_select: "length xs = length ys \<Longrightarrow> length (select m xs) = length (select m ys)"
proof (induction m arbitrary: xs ys)
  case Nil
  then show ?case by (simp add: select_def)
next
  case (Cons b m)
  then show ?case by (cases xs; cases ys) (auto simp: select_def)
qed

lemma those_length: "those xs = Some ys \<Longrightarrow> length ys = length xs"
  by (induction xs arbitrary: ys) (auto split: option.splits)

lemma to_datetime_length: "to_datetime conv dt = Inr ds \<Longrightarrow> length ds = length dt"
  by (auto simp: to_datetime_def split: option.splits dest: those_length)

lemma wellformed_getitem: "wellformed df \<Longrightarrow> getitem df k = Some cs \<Longrightarrow> length cs = length (index df)"
  by (auto simp: wellformed_def list_all_iff dest!: getitem_in_columns)

lemma wellformed_prepared:
  assumes "wellformed (rename df column_mapping)" "length ds = length (index df)"
  shows "wellformed (prepared df ds)"
proof -
  have "distinct (map fst (columns (prepared df ds)))"
    using assms(1) distinct_map_filter[of "rename_label column_mapping \<circ> fst" "columns df"]
    by (simp add: wellformed_def prepared_def fillna_def rename_def drop_column_def comp_def)
  moreover have "list_all (\<lambda>kc. length (snd kc) = length ds) (columns (prepared df ds))"
    using assms by (auto simp: wellformed_def prepared_def fillna_def rename_def drop_column_def list_all_iff)
  ultimately show ?thesis by (simp add: wellformed_def prepared_def fillna_def rename_def drop_column_def)
qed

lemma wellformed_setitem:
  assumes "wellformed p" "getitem p k = Some old" "length cs = length (index p)"
  shows "wellformed (setitem p k cs)"
proof -
  have "k \<in> fst ` set (columns p)"
    using getitem_in_columns[OF assms(2)] by force
  then have "map fst (AList.update k cs (columns p)) = map fst (columns p)"
    by (simp add: update_keys)
  moreover have "list_all (\<lambda>kc. length (snd kc) = length (index p)) (AList.update k cs (columns p))"
    using assms(1,3) by (auto simp: wellformed_def list_all_iff dest!: in_updateD)
  ultimately show ?thesis using assms(1) by (simp add: wellformed_def setitem_def)
qed

lemma wellformed_mask_rows:
  assumes "wellformed p"
  shows "wellformed (mask_rows p m)"
proof -
  have "map fst (columns (mask_rows p m)) = map fst (columns p)"
    by (simp add: mask_rows_def comp_def)
  moreover have "list_all (\<lambda>kc. length (snd kc) = length (select m (index p))) (columns (mask_rows p m))"
    using assms by (auto simp: wellformed_def list_all_iff mask_rows_def intro: length_select)
  moreover have "index (mask_rows p m) = select m (index p)"
    by (simp add: mask_rows_def)
  ultimately show ?thesis using assms by (simp add: wellformed_def)
qed

lemma clean_frame_wellformed:
  assumes "clean_frame conv df = Inr out" "wellformed (rename df column_mapping)"
  shows "wellformed out"
proof -
  from assms(1) obtain dt ds secs invs where
    h: "getitem df ''DT_NEGOCIO'' = Some dt" "to_datetime conv dt = Inr ds"
       "getitem (prepared df ds) ''SECTOR'' = Some secs"
       "getitem (prepared df ds) ''INV TYPE'' = Some invs"
       "out = mask_rows (remapped (prepared df ds) secs invs)
              (isin (replace investor_mapping invs) valid_investors)"
    unfolding clean_frame_Inr by blast
  have "(''DT_NEGOCIO'', dt) \<in> set (columns df)"
    using h(1) by (rule getitem_in_columns)
  then have "(rename_label column_mapping ''DT_NEGOCIO'', dt) \<in> set (columns (rename df column_mapping))"
    by (force simp: rename_def)
  then have "length dt = length (index df)"
    using assms(2) by (auto simp: wellformed_def list_all_iff rename_def)
  then have len: "length ds = length (index df)"
    using to_datetime_length[OF h(2)] by simp
  have wp: "wellformed (prepared df ds)"
    using assms(2) len by (rule wellformed_prepared)
  have ip: "index (prepared df ds) = ds"
    by (simp add: prepared_def fillna_def rename_def drop_column_def)
  have w1: "wellformed (setitem (prepared df ds) ''SECTOR'' (replace sector_mapping secs))"
    using wp h(3) wellformed_getitem[OF wp h(3)]
    by (intro wellformed_setitem) (simp_all add: replace_def)
  have g1: "getitem (setitem (prepared df ds) ''SECTOR'' (replace sector_mapping secs)) ''INV TYPE'' = Some invs"
    using h(4) by (simp add: getitem_setitem)
  have "length (replace investor_mapping invs) =
        length (index (setitem (prepared df ds) ''SECTOR'' (replace sector_mapping secs)))"
    using wellformed_getitem[OF wp h(4)] by (simp add: replace_def setitem_def)
  with w1 g1 have "wellformed (remapped (prepared df ds) secs invs)"
    unfolding remapped_def by (rule wellformed_setitem)
  then show ?thesis
    unfolding h(5) by (rule wellformed_mask_rows)
qed


definition example_sheet :: "string frame" where
  "example_sheet =
     \<lparr>index = range_index 4,
      columns =
        [(''DT_NEGOCIO'', [Stamp 1, Stamp 1, Stamp 2, Stamp 2]),
         (''CD_SETOR'', [Str ''BANK'', Str ''FII'', Str ''BANK'', NaN]),
         (''CONTA'', [Str ''GENIAL'', Str ''ESTRANGEIRO'', Str ''LOCAL INSTITUCIONAL'',
                      Str ''UNKNOWN_DESK'']),
         (''VL_NET'', [Num 2000000, Num (- 1000000), Num 500000, Num 7]),
         (''VL_TOTAL'', [Num 5000000, Num 1000000, Num 500000, Num 7])]\<rparr>"

definition example_canonical :: "string frame" where
  "example_canonical =
     \<lparr>index = [Stamp 1, Stamp 1, Stamp 2],
      columns =
        [(''SECTOR'', [Str ''BANK'', Str ''Others'', Str ''BANK'']),
         (''INV TYPE'', [Str ''RETAIL'', Str ''FOREIGNERS'', Str ''LOCALS'']),
         (''NET R$'', [Num 2000000, Num (- 1000000), Num 500000]),
         (''TOTAL'', [Num 5000000, Num 1000000, Num 500000])]\<rparr>"

lemmas frame_ops =
  getitem_def setitem_def drop_column_def rename_def rename_label_def fillna_def fill_def
  replace_def replace1_def isin_def select_def mask_rows_def to_datetime_def

lemmas clean_steps =
  clean_data_def clean_values_def on_data_def assign_def attr_def set_date_index_def
  drop_date_def rename_columns_def fill_others_def standardize_sector_def
  standardize_investor_def filter_investors_def column_mapping_def sector_mapping_def
  investor_mapping_def valid_investors_def

lemma example_clean:
  "clean_data (\<lambda>c. None) (init\<lparr>data := Some example_sheet\<rparr>) =
   Done (init\<lparr>data := Some example_canonical\<rparr>)"
  by (simp add: clean_steps frame_ops example_sheet_def example_canonical_def init_def range_index_def)

lemma example_sheet_wellformed: "wellformed (rename example_sheet column_mapping)"
  by (simp add: wellformed_def rename_def rename_label_def column_mapping_def example_sheet_def range_index_def)

text \<open>
  What \<^verbatim>\<open>_clean_data\<close> makes of one cell of the column labelled \<open>k\<close>: a missing cell is
  filled, and the sector and category columns are remapped after that.
\<close>

definition cleaned_cell :: "string \<Rightarrow> cell \<Rightarrow> cell" where
  "cleaned_cell k c =
     (if k = ''SECTOR'' then replace1 sector_mapping (fill (Str ''Others'') c)
      else if k = ''INV TYPE'' then replace1 investor_mapping (fill (Str ''Others'') c)
      else fill (Str ''Others'') c)"

text \<open>The rows that the filter of line 82 keeps, by the raw category column.\<close>

definition kept_rows :: "cell list \<Rightarrow> bool list" where
  "kept_rows conta = map (\<lambda>c. cleaned_cell ''INV TYPE'' c \<in> set valid_investors) conta"

lemma map_fst_update:
  "k \<in> fst ` set al \<Longrightarrow> map fst (AList.update k v al) = map fst al"
  by (induction al) auto

lemma getitem_dom: "getitem df k = Some cs \<Longrightarrow> k \<in> fst ` set (columns df)"
  by (auto simp: getitem_def dest!: map_of_SomeD intro: rev_image_eqI)

lemma rename_label_date_iff:
  "rename_label column_mapping k = ''DT_NEGOCIO'' \<longleftrightarrow> k = ''DT_NEGOCIO''"
  by (simp add: rename_label_def column_mapping_def)

lemma prepared_labels:
  "map fst (columns (prepared df ds)) =
     filter (\<lambda>k. k \<noteq> ''DT_NEGOCIO'') (map fst (columns (rename df column_mapping)))"
  by (simp add: prepared_def fillna_def rename_def drop_column_def comp_def filter_map
      rename_label_date_iff)

lemma clean_frame_table:
  assumes "clean_frame conv raw = Inr out"
  shows "\<exists>dt ds conta.
      getitem raw ''DT_NEGOCIO'' = Some dt \<and> to_datetime conv dt = Inr ds \<and>
      getitem (rename raw column_mapping) ''INV TYPE'' = Some conta \<and>
      index out = select (kept_rows conta) ds \<and>
      map fst (columns out) =
        filter (\<lambda>k. k \<noteq> ''DT_NEGOCIO'') (map fst (columns (rename raw column_mapping))) \<and>
      (\<forall>k. k \<noteq> ''DT_NEGOCIO'' \<longrightarrow>
         getitem out k =
           map_option (\<lambda>cs. select (kept_rows conta) (map (cleaned_cell k) cs))
             (getitem (rename raw column_mapping) k))"
proof -
  from assms obtain dt ds secs invs where
    h: "getitem raw ''DT_NEGOCIO'' = Some dt" "to_datetime conv dt = Inr ds"
       "getitem (prepared raw ds) ''SECTOR'' = Some secs"
       "getitem (prepared raw ds) ''INV TYPE'' = Some invs"
       "out = mask_rows (remapped (prepared raw ds) secs invs)
              (isin (replace investor_mapping invs) valid_investors)"
    unfolding clean_frame_Inr by (elim exE conjE)
  have p: "getitem (prepared raw ds) k =
      map_option (map (fill (Str ''Others''))) (getitem (rename raw column_mapping) k)"
    if "k \<noteq> ''DT_NEGOCIO''" for k
    using that by (simp add: prepared_def getitem_fillna getitem_rename_drop_date)
  from h(4) p[of "''INV TYPE''"] obtain conta where
    c: "getitem (rename raw column_mapping) ''INV TYPE'' = Some conta"
       "invs = map (fill (Str ''Others'')) conta"
    by auto
  from h(3) p[of "''SECTOR''"] obtain sect where
    s: "getitem (rename raw column_mapping) ''SECTOR'' = Some sect"
       "secs = map (fill (Str ''Others'')) sect"
    by auto
  have keep: "isin (replace investor_mapping invs) valid_investors = kept_rows conta"
    by (simp add: isin_def replace_def kept_rows_def cleaned_cell_def c(2) comp_def)
  have 1: "index out = select (kept_rows conta) ds"
    by (simp add: h(5) keep mask_rows_def remapped_def setitem_def prepared_def fillna_def
        rename_def drop_column_def)
  have "map fst (columns out) = map fst (columns (prepared raw ds))"
    using getitem_dom[OF h(3)] getitem_dom[OF h(4)]
    by (simp add: h(5) mask_rows_def remapped_def setitem_def comp_def map_fst_update dom_update)
  then have 2: "map fst (columns out) =
        filter (\<lambda>k. k \<noteq> ''DT_NEGOCIO'') (map fst (columns (rename raw column_mapping)))"
    by (simp only: prepared_labels)
  have 3: "\<forall>k. k \<noteq> ''DT_NEGOCIO'' \<longrightarrow>
         getitem out k =
           map_option (\<lambda>cs. select (kept_rows conta) (map (cleaned_cell k) cs))
             (getitem (rename raw column_mapping) k)"
  proof (intro allI impI)
    fix k :: string assume k: "k \<noteq> ''DT_NEGOCIO''"
    show "getitem out k =
           map_option (\<lambda>cs. select (kept_rows conta) (map (cleaned_cell k) cs))
             (getitem (rename raw column_mapping) k)"
      unfolding h(5) keep
      by (simp add: getitem_mask_rows remapped_def getitem_setitem p[OF k] c s replace_def
          cleaned_cell_def[abs_def] option.map_comp comp_def)
  qed
  from h(1,2) c(1) 1 2 3 show ?thesis
    by (intro exI conjI)
qed


definition example_gaps_sheet :: "string frame" where
  "example_gaps_sheet =
     \<lparr>index = range_index 5,
      columns =
        [(''DT_NEGOCIO'', [Stamp 1, Stamp 1, Stamp 2, Stamp 2, Stamp 3]),
         (''CD_SETOR'', [NaN, Str ''FII'', Str ''BANK'', Str ''BANK'', Str ''IBOV'']),
         (''CD_SUBSETOR'', [NaN, Str ''FUNDS'', Str ''BANKS'', NaN, Str ''INDEX'']),
         (''CD_SEGMENTO'', [Str ''RETAIL BANKS'', NaN, Str ''BANKS'', NaN, NaN]),
         (''CONTA'', [Str ''GENIAL'', Str ''ESTRANGEIRO'', Str ''UNKNOWN_DESK'', NaN,
                      Str ''LOCAL INSTITUCIONAL'']),
         (''VL_NET'', [Num 2000000, Num (- 1000000), Num 7, Num 9, Num 500000])]\<rparr>"

definition example_gaps_canonical :: "string frame" where
  "example_gaps_canonical =
     \<lparr>index = [Stamp 1, Stamp 1, Stamp 3],
      columns =
        [(''SECTOR'', [Str ''Others'', Str ''Others'', Str ''Others'']),
         (''SUB-SECTOR'', [Str ''Others'', Str ''FUNDS'', Str ''INDEX'']),
         (''SEGMENT'', [Str ''RETAIL BANKS'', Str ''Others'', Str ''Others'']),
         (''INV TYPE'', [Str ''RETAIL'', Str ''FOREIGNERS'', Str ''LOCALS'']),
         (''NET R$'', [Num 2000000, Num (- 1000000), Num 500000])]\<rparr>"

lemma example_gaps_clean:
  "clean_data (\<lambda>c. None) (init\<lparr>data := Some example_gaps_sheet\<rparr>) =
   Done (init\<lparr>data := Some example_gaps_canonical\<rparr>)"
  by (simp add: clean_steps frame_ops example_gaps_sheet_def example_gaps_canonical_def init_def
      range_index_def)

lemma example_gaps_wellformed: "wellformed (rename example_gaps_sheet column_mapping)"
  by (simp add: wellformed_def rename_def rename_label_def column_mapping_def
      example_gaps_sheet_def range_index_def)

lemma example_gaps_conta:
  "getitem (rename example_gaps_sheet column_mapping) ''INV TYPE'' =
     Some [Str ''GENIAL'', Str ''ESTRANGEIRO'', Str ''UNKNOWN_DESK'', NaN,
           Str ''LOCAL INSTITUCIONAL'']"
  by (simp add: getitem_def rename_def rename_label_def column_mapping_def example_gaps_sheet_def)

lemma example_gaps_sector:
  "getitem (rename example_gaps_sheet column_mapping) ''SECTOR'' =
     Some [NaN, Str ''FII'', Str ''BANK'', Str ''BANK'', Str ''IBOV'']"
  by (simp add: getitem_def rename_def rename_label_def column_mapping_def example_gaps_sheet_def)

lemma example_gaps_segment:
  "getitem (rename example_gaps_sheet column_mapping) ''SEGMENT'' =
     Some [Str ''RETAIL BANKS'', NaN, Str ''BANKS'', NaN, NaN]"
  by (simp add: getitem_def rename_def rename_label_def column_mapping_def example_gaps_sheet_def)

lemma example_gaps_kept:
  "kept_rows [Str ''GENIAL'', Str ''ESTRANGEIRO'', Str ''UNKNOWN_DESK'', NaN,
              Str ''LOCAL INSTITUCIONAL''] = [True, True, False, False, True]"
  by (simp add: kept_rows_def cleaned_cell_def fill_def replace1_def investor_mapping_def
      valid_investors_def)

text \<open>
  C1. When \<^verbatim>\<open>_clean_data\<close> returns on a raw table, the table it leaves in \<^verbatim>\<open>self.data\<close>
  is the raw table cut down to the rows whose filled and remapped category lies in
  \<open>{LOCALS, FOREIGNERS, RETAIL}\<close>, and nothing else: its index is the converted dates of
  those rows, its columns are the renamed raw columns other than the date, and every
  column holds the cleaned cells of those rows, in their order. So a row of another
  category is absent with its date and all its cells, and every other row is present. No
  column of the result holds a missing value (none is left in sector, sub-sector,
  segment or category), and every cell of the category column is one of the three.
\<close>

theorem clean_data_canonical:
  assumes "clean_data conv s = Done s'" and "data s = Some raw"
    and "wellformed (rename raw column_mapping)"
  shows "\<exists>out dt ds conta.
      data s' = Some out \<and> wellformed out \<and>
      getitem raw ''DT_NEGOCIO'' = Some dt \<and> to_datetime conv dt = Inr ds \<and>
      getitem (rename raw column_mapping) ''INV TYPE'' = Some conta \<and>
      index out = select (kept_rows conta) ds \<and>
      map fst (columns out) =
        filter (\<lambda>k. k \<noteq> ''DT_NEGOCIO'') (map fst (columns (rename raw column_mapping))) \<and>
      (\<forall>k. k \<noteq> ''DT_NEGOCIO'' \<longrightarrow>
         getitem out k =
           map_option (\<lambda>cs. select (kept_rows conta) (map (cleaned_cell k) cs))
             (getitem (rename raw column_mapping) k)) \<and>
      (\<forall>k cs. getitem out k = Some cs \<longrightarrow> NaN \<notin> set cs) \<and>
      getitem out ''INV TYPE'' =
        Some (filter (\<lambda>c. c \<in> set valid_investors)
               (map (\<lambda>c. replace1 investor_mapping (fill (Str ''Others'') c)) conta)) \<and>
      (\<forall>cs. getitem out ''INV TYPE'' = Some cs \<longrightarrow>
         set cs \<subseteq> {Str ''LOCALS'', Str ''FOREIGNERS'', Str ''RETAIL''})"
proof -
  from assms(1,2) obtain out where
    out: "clean_frame conv raw = Inr out" "s' = s\<lparr>data := Some out\<rparr>"
    unfolding clean_data_Done by auto
  from clean_frame_table[OF out(1)] obtain dt ds conta where
    t: "getitem raw ''DT_NEGOCIO'' = Some dt" "to_datetime conv dt = Inr ds"
       "getitem (rename raw column_mapping) ''INV TYPE'' = Some conta"
       "index out = select (kept_rows conta) ds"
       "map fst (columns out) =
          filter (\<lambda>k. k \<noteq> ''DT_NEGOCIO'') (map fst (columns (rename raw column_mapping)))"
       "\<forall>k. k \<noteq> ''DT_NEGOCIO'' \<longrightarrow>
         getitem out k =
           map_option (\<lambda>cs. select (kept_rows conta) (map (cleaned_cell k) cs))
             (getitem (rename raw column_mapping) k)"
    by (elim exE conjE) (rule that)
  from clean_frame_investors[OF out(1)] t(3) have
    c: "getitem out ''INV TYPE'' =
        Some (filter (\<lambda>c. c \<in> set valid_investors)
               (map (\<lambda>c. replace1 investor_mapping (fill (Str ''Others'') c)) conta))"
    by auto
  have nn: "\<forall>k cs. getitem out k = Some cs \<longrightarrow> NaN \<notin> set cs"
  proof (intro allI impI)
    fix k cs assume "getitem out k = Some cs"
    then have "(k, cs) \<in> set (columns out)" by (rule getitem_in_columns)
    from clean_frame_notna[OF out(1) this] show "NaN \<notin> set cs" by simp
  qed
  have v: "\<forall>cs. getitem out ''INV TYPE'' = Some cs \<longrightarrow>
         set cs \<subseteq> {Str ''LOCALS'', Str ''FOREIGNERS'', Str ''RETAIL''}"
    unfolding c by (auto simp: valid_investors_def)
  have d: "data s' = Some out" by (simp add: out(2))
  note w = clean_frame_wellformed[OF out(1) assms(3)]
  show ?thesis
    apply (rule exI[of _ out], rule exI[of _ dt], rule exI[of _ ds], rule exI[of _ conta])
    apply (intro conjI)
              apply (fact d w t(1) t(2) t(3) t(4) t(5) t(6) nn c v)+
    done
qed

text \<open>
  The theorem at a sheet of five rows: one of an unknown desk and one with no category,
  both dropped, and three kept rows with a missing sector, sub-sector or segment.
\<close>

theorem clean_data_canonical_witness:
  "clean_data (\<lambda>c. None) (init\<lparr>data := Some example_gaps_sheet\<rparr>) =
     Done (init\<lparr>data := Some example_gaps_canonical\<rparr>) \<and>
   wellformed (rename example_gaps_sheet column_mapping) \<and>
   getitem (rename example_gaps_sheet column_mapping) ''INV TYPE'' =
     Some [Str ''GENIAL'', Str ''ESTRANGEIRO'', Str ''UNKNOWN_DESK'', NaN,
           Str ''LOCAL INSTITUCIONAL''] \<and>
   index example_gaps_canonical = [Stamp 1, Stamp 1, Stamp 3] \<and>
   getitem example_gaps_canonical ''INV TYPE'' =
     Some [Str ''RETAIL'', Str ''FOREIGNERS'', Str ''LOCALS''] \<and>
   getitem (rename example_gaps_sheet column_mapping) ''SECTOR'' =
     Some [NaN, Str ''FII'', Str ''BANK'', Str ''BANK'', Str ''IBOV''] \<and>
   getitem example_gaps_canonical ''SECTOR'' =
     Some [Str ''Others'', Str ''Others'', Str ''Others''] \<and>
   getitem (rename example_gaps_sheet column_mapping) ''SEGMENT'' =
     Some [Str ''RETAIL BANKS'', NaN, Str ''BANKS'', NaN, NaN] \<and>
   getitem example_gaps_canonical ''SEGMENT'' =
     Some [Str ''RETAIL BANKS'', Str ''Others'', Str ''Others'']"
proof -
  have d: "data (init\<lparr>data := Some example_gaps_sheet\<rparr>) = Some example_gaps_sheet" by simp
  from clean_data_canonical[OF example_gaps_clean d example_gaps_wellformed]
  obtain out dt ds conta where
    h: "data (init\<lparr>data := Some example_gaps_canonical\<rparr>) = Some out"
       "getitem example_gaps_sheet ''DT_NEGOCIO'' = Some dt"
       "to_datetime (\<lambda>c. None) dt = Inr ds"
       "getitem (rename example_gaps_sheet column_mapping) ''INV TYPE'' = Some conta"
       "index out = select (kept_rows conta) ds"
       "\<forall>k. k \<noteq> ''DT_NEGOCIO'' \<longrightarrow>
         getitem out k =
           map_option (\<lambda>cs. select (kept_rows conta) (map (cleaned_cell k) cs))
             (getitem (rename example_gaps_sheet column_mapping) k)"
    by (elim exE conjE) (rule that)
  from h(1) have o: "out = example_gaps_canonical" by simp
  from h(4) have c: "conta = [Str ''GENIAL'', Str ''ESTRANGEIRO'', Str ''UNKNOWN_DESK'', NaN,
           Str ''LOCAL INSTITUCIONAL'']"
    by (simp add: example_gaps_conta)
  from h(2) have dt: "dt = [Stamp 1, Stamp 1, Stamp 2, Stamp 2, Stamp 3]"
    by (simp add: getitem_def example_gaps_sheet_def)
  from h(3) have ds: "ds = [Stamp 1, Stamp 1, Stamp 2, Stamp 2, Stamp 3]"
    by (simp add: dt to_datetime_def)
  have 1: "index example_gaps_canonical = [Stamp 1, Stamp 1, Stamp 3]"
    using h(5) unfolding o c ds example_gaps_kept by (simp add: select_def)
  have k: "''INV TYPE'' \<noteq> ''DT_NEGOCIO''" "''SECTOR'' \<noteq> ''DT_NEGOCIO''"
    "''SEGMENT'' \<noteq> ''DT_NEGOCIO''"
    by simp_all
  have 2: "getitem example_gaps_canonical ''INV TYPE'' =
     Some [Str ''RETAIL'', Str ''FOREIGNERS'', Str ''LOCALS'']"
    using h(6)[rule_format, OF k(1)] unfolding o c example_gaps_kept example_gaps_conta
    by (simp add: select_def cleaned_cell_def fill_def replace1_def investor_mapping_def)
  have 3: "getitem example_gaps_canonical ''SECTOR'' =
     Some [Str ''Others'', Str ''Others'', Str ''Others'']"
    using h(6)[rule_format, OF k(2)] unfolding o c example_gaps_kept example_gaps_sector
    by (simp add: select_def cleaned_cell_def fill_def replace1_def sector_mapping_def)
  have 4: "getitem example_gaps_canonical ''SEGMENT'' =
     Some [Str ''RETAIL BANKS'', Str ''Others'', Str ''Others'']"
    using h(6)[rule_format, OF k(3)] unfolding o c example_gaps_kept example_gaps_segment
    by (simp add: select_def cleaned_cell_def fill_def)
  show ?thesis
    apply (intro conjI)
            apply (fact example_gaps_clean example_gaps_wellformed example_gaps_conta 1 2
        example_gaps_sector 3 example_gaps_segment 4)+
    done
qed

section \<open>Running the cleaning twice\<close>

lemma rename_label_idem [simp]:
  "rename_label column_mapping (rename_label column_mapping k) = rename_label column_mapping k"
  by (simp add: rename_label_def column_mapping_def)

lemma rename_fixed:
  "(\<And>kc. kc \<in> set (columns df) \<Longrightarrow> rename_label m (fst kc) = fst kc) \<Longrightarrow> rename df m = df"
  by (simp add: rename_def map_idI)

lemma fillna_fixed:
  "(\<And>kc. kc \<in> set (columns df) \<Longrightarrow> NaN \<notin> set (snd kc)) \<Longrightarrow> fillna df v = df"
proof -
  assume a: "\<And>kc. kc \<in> set (columns df) \<Longrightarrow> NaN \<notin> set (snd kc)"
  have "map (\<lambda>kc. (fst kc, map (fill v) (snd kc))) (columns df) = columns df"
  proof (rule map_idI)
    fix kc assume "kc \<in> set (columns df)"
    then have "NaN \<notin> set (snd kc)" by (rule a)
    then have "map (fill v) (snd kc) = snd kc"
      by (intro map_idI) (auto simp: fill_def)
    then show "(fst kc, map (fill v) (snd kc)) = kc" by simp
  qed
  then show ?thesis by (simp add: fillna_def)
qed

lemma setitem_same: "getitem df k = Some cs \<Longrightarrow> setitem df k cs = df"
  by (simp add: setitem_def getitem_def update_triv)

lemma replace_select: "replace m (select k xs) = select k (replace m xs)"
proof (induction k arbitrary: xs)
  case Nil
  then show ?case by (simp add: replace_def select_def)
next
  case (Cons b k)
  then show ?case by (cases xs) (auto simp: replace_def select_def)
qed

lemma replace1_sector_idem [simp]:
  "replace1 sector_mapping (replace1 sector_mapping c) = replace1 sector_mapping c"
  by (simp add: replace1_def sector_mapping_def)

lemma replace1_investor_idem [simp]:
  "replace1 investor_mapping (replace1 investor_mapping c) = replace1 investor_mapping c"
  by (simp add: replace1_def investor_mapping_def)

lemma select_all: "\<forall>b \<in> set m. b \<Longrightarrow> length xs \<le> length m \<Longrightarrow> select m xs = xs"
proof (induction m arbitrary: xs)
  case Nil
  then show ?case by (simp add: select_def)
next
  case (Cons b m)
  then show ?case by (cases xs) (auto simp: select_def)
qed

lemma mask_rows_all:
  assumes "wellformed df" "getitem df k = Some cs" "\<forall>b \<in> set m. b" "length m = length cs"
  shows "mask_rows df m = df"
proof -
  have n: "length m = length (index df)"
    using wellformed_getitem[OF assms(1,2)] assms(4) by simp
  have "map (\<lambda>kc. (fst kc, select m (snd kc))) (columns df) = columns df"
  proof (rule map_idI)
    fix kc assume "kc \<in> set (columns df)"
    then have "length (snd kc) = length m"
      using assms(1) n by (auto simp: wellformed_def list_all_iff)
    then have "select m (snd kc) = snd kc"
      using assms(3) by (intro select_all) simp_all
    then show "(fst kc, select m (snd kc)) = kc" by simp
  qed
  moreover have "select m (index df) = index df"
    using assms(3) n by (intro select_all) simp_all
  ultimately show ?thesis by (simp add: mask_rows_def)
qed


lemma clean_frame_labels:
  assumes "clean_frame conv df = Inr out" "kc \<in> set (columns out)"
  shows "rename_label column_mapping (fst kc) = fst kc"
proof -
  from assms(1) obtain dt ds secs invs where
    h: "out = mask_rows (remapped (prepared df ds) secs invs)
              (isin (replace investor_mapping invs) valid_investors)"
    unfolding clean_frame_Inr by blast
  have "fst kc \<in> fst ` set (columns (remapped (prepared df ds) secs invs))"
    using assms(2) unfolding h by (force simp: mask_rows_def)
  then have "fst kc = ''INV TYPE'' \<or> fst kc = ''SECTOR'' \<or> fst kc \<in> fst ` set (columns (prepared df ds))"
    by (auto simp: remapped_def setitem_def dom_update)
  moreover have "rename_label column_mapping ''INV TYPE'' = ''INV TYPE''"
    "rename_label column_mapping ''SECTOR'' = ''SECTOR''"
    by (simp_all add: rename_label_def column_mapping_def)
  moreover have "k \<in> fst ` set (columns (prepared df ds)) \<Longrightarrow> rename_label column_mapping k = k" for k
    by (auto simp: prepared_def fillna_def rename_def drop_column_def)
  ultimately show ?thesis by auto
qed

lemma clean_frame_fixed:
  assumes c: "clean_frame conv df = Inr out" and w: "wellformed (rename df column_mapping)"
  shows "chain [rename_columns, fill_others, standardize_sector, standardize_investor,
                filter_investors] out = Inr out"
proof -
  from c obtain dt ds secs invs where
    h: "out = mask_rows (remapped (prepared df ds) secs invs)
              (isin (replace investor_mapping invs) valid_investors)"
    unfolding clean_frame_Inr by blast
  let ?keep = "isin (replace investor_mapping invs) valid_investors"
  have wo: "wellformed out" using c w by (rule clean_frame_wellformed)
  have r: "rename out column_mapping = out"
    using clean_frame_labels[OF c] by (rule rename_fixed)
  have f: "fillna out (Str ''Others'') = out"
    using clean_frame_notna[OF c] by (rule fillna_fixed)
  have gs: "getitem out ''SECTOR'' = Some (select ?keep (replace sector_mapping secs))"
    by (simp add: h getitem_mask_rows remapped_def getitem_setitem)
  have gi: "getitem out ''INV TYPE'' = Some (select ?keep (replace investor_mapping invs))"
    by (simp add: h getitem_mask_rows remapped_def getitem_setitem)
  have rs: "replace sector_mapping (select ?keep (replace sector_mapping secs)) =
            select ?keep (replace sector_mapping secs)"
    by (simp add: replace_select) (simp add: replace_def comp_def)
  have ri: "replace investor_mapping (select ?keep (replace investor_mapping invs)) =
            select ?keep (replace investor_mapping invs)"
    by (simp add: replace_select) (simp add: replace_def comp_def)
  have s1: "standardize_sector out = Inr out"
    using gs by (simp add: standardize_sector_def rs setitem_same)
  have s2: "standardize_investor out = Inr out"
    using gi by (simp add: standardize_investor_def ri setitem_same)
  let ?cs = "select ?keep (replace investor_mapping invs)"
  have "?cs = filter (\<lambda>c. c \<in> set valid_investors) (replace investor_mapping invs)"
    by (rule select_isin)
  then have "\<forall>c \<in> set ?cs. c \<in> set valid_investors"
    by simp
  then have "\<forall>b \<in> set (isin ?cs valid_investors). b"
    unfolding isin_def by auto
  moreover have "length (isin ?cs valid_investors) = length ?cs"
    by (simp add: isin_def)
  ultimately have "mask_rows out (isin ?cs valid_investors) = out"
    using wo gi by (intro mask_rows_all)
  then have s3: "filter_investors out = Inr out"
    using gi by (simp add: filter_investors_def)
  show ?thesis
    by (simp add: rename_columns_def fill_others_def r f s1 s2 s3)
qed

lemma run_clean_values_Done:
  "data s = Some df \<Longrightarrow>
   run clean_values s = Done s' \<longleftrightarrow>
   (\<exists>df'. chain [rename_columns, fill_others, standardize_sector, standardize_investor,
                 filter_investors] df = Inr df' \<and> s' = s\<lparr>data := Some df'\<rparr>)"
  using run_on_data_Done[of s df
      "[(AttributeError, rename_columns), (AttributeError, fill_others),
        (TypeError, standardize_sector), (TypeError, standardize_investor),
        (TypeError, filter_investors)]" s']
  by (simp add: clean_values_def)

lemma map_of_rename_dropped:
  "(\<And>k. f k = d \<longleftrightarrow> k = d) \<Longrightarrow>
   map_of (map (\<lambda>kc. (f (fst kc), snd kc)) (filter (\<lambda>kc. fst kc \<noteq> d) xs)) d = None"
  by (induction xs) (auto simp: eq_commute[of d])

lemma prepared_no_date: "getitem (prepared raw ds) ''DT_NEGOCIO'' = None"
proof -
  have "getitem (rename (drop_column (raw\<lparr>index := ds\<rparr>) ''DT_NEGOCIO'') column_mapping)
          ''DT_NEGOCIO'' = None"
    using map_of_rename_dropped[of "rename_label column_mapping" "''DT_NEGOCIO''" "columns raw"]
    by (simp add: getitem_def rename_def drop_column_def rename_label_date_iff)
  then show ?thesis
    by (simp add: prepared_def getitem_fillna)
qed

lemma clean_frame_no_date:
  assumes "clean_frame conv raw = Inr out"
  shows "getitem out ''DT_NEGOCIO'' = None"
proof -
  from assms obtain dt ds secs invs where
    h: "out = mask_rows (remapped (prepared raw ds) secs invs)
            (isin (replace investor_mapping invs) valid_investors)"
    unfolding clean_frame_Inr by blast
  show ?thesis
    unfolding h by (simp add: getitem_mask_rows remapped_def getitem_setitem prepared_no_date)
qed

lemma clean_data_no_date:
  assumes "data s = Some df" "getitem df ''DT_NEGOCIO'' = None"
  shows "clean_data conv s = Raised (KeyError ''DT_NEGOCIO'') s"
  using assms by (simp add: clean_data_def on_data_def assign_def attr_def set_date_index_def)

text \<open>
  C5, as the code has it. Running \<^verbatim>\<open>_clean_data\<close> again on its own result raises
  \<^verbatim>\<open>KeyError('DT_NEGOCIO')\<close>: the first run moved the date column into the index and dropped
  it. The steps after that (rename, fill, sector and category remapping, category filter)
  leave a canonical table as it is: no row is dropped and no value changes.
\<close>

theorem clean_values_idempotent:
  assumes "clean_data conv s = Done s'" and "data s = Some raw"
    and "wellformed (rename raw column_mapping)"
  shows "run clean_values s' = Done s' \<and>
         clean_data conv s' = Raised (KeyError ''DT_NEGOCIO'') s'"
proof -
  from assms(1,2) obtain out where
    out: "clean_frame conv raw = Inr out" "s' = s\<lparr>data := Some out\<rparr>"
    unfolding clean_data_Done by auto
  have d: "data s' = Some out" by (simp add: out(2))
  have e: "s' = s'\<lparr>data := Some out\<rparr>" by (simp add: out(2))
  have "\<exists>df'. chain [rename_columns, fill_others, standardize_sector, standardize_investor,
                 filter_investors] out = Inr df' \<and> s' = s'\<lparr>data := Some df'\<rparr>"
    using clean_frame_fixed[OF out(1) assms(3)] e by blast
  then have 1: "run clean_values s' = Done s'"
    by (simp only: run_clean_values_Done[OF d])
  have 2: "clean_data conv s' = Raised (KeyError ''DT_NEGOCIO'') s'"
    using d clean_frame_no_date[OF out(1)] by (rule clean_data_no_date)
  from 1 2 show ?thesis ..
qed

theorem clean_values_idempotent_witness:
  "clean_data (\<lambda>c. None) (init\<lparr>data := Some example_sheet\<rparr>) =
     Done (init\<lparr>data := Some example_canonical\<rparr>) \<and>
   wellformed (rename example_sheet column_mapping) \<and>
   run clean_values (init\<lparr>data := Some example_canonical\<rparr>) =
     Done (init\<lparr>data := Some example_canonical\<rparr>)"
proof -
  have d: "data (init\<lparr>data := Some example_sheet\<rparr>) = Some example_sheet" by simp
  from clean_values_idempotent[OF example_clean d example_sheet_wellformed]
  show ?thesis using example_clean example_sheet_wellformed by simp
qed

theorem clean_data_rerun_counterexample:
  "clean_data (\<lambda>c. None) (init\<lparr>data := Some example_sheet\<rparr>) =
     Done (init\<lparr>data := Some example_canonical\<rparr>) \<and>
   clean_data (\<lambda>c. None) (init\<lparr>data := Some example_canonical\<rparr>) =
     Raised (KeyError ''DT_NEGOCIO'') (init\<lparr>data := Some example_canonical\<rparr>) \<and>
   clean_data (\<lambda>c. None) (init\<lparr>data := Some example_canonical\<rparr>) \<noteq>
     Done (init\<lparr>data := Some example_canonical\<rparr>)"
  by (simp add: example_clean)
     (simp add: clean_steps frame_ops example_canonical_def init_def)

section \<open>Missing amounts\<close>

lemma map_of_rename_distinct:
  assumes "distinct (map (\<lambda>kc. f (fst kc)) xs)" "map_of xs k = Some v"
  shows "map_of (map (\<lambda>kc. (f (fst kc), snd kc)) xs) (f k) = Some v"
proof -
  have "(k, v) \<in> set xs" using assms(2) by (rule map_of_SomeD)
  then have "(f k, v) \<in> set (map (\<lambda>kc. (f (fst kc), snd kc)) xs)" by force
  moreover have "distinct (map fst (map (\<lambda>kc. (f (fst kc), snd kc)) xs))"
    using assms(1) by (simp add: comp_def)
  ultimately show ?thesis by (rule map_of_is_SomeI[rotated])
qed

lemma getitem_rename:
  assumes "wellformed (rename df m)" "getitem df k = Some cs"
  shows "getitem (rename df m) (rename_label m k) = Some cs"
  using assms map_of_rename_distinct[of "rename_label m" "columns df" k cs]
  by (simp add: wellformed_def rename_def getitem_def comp_def)

definition example_blank_sheet :: "string frame" where
  "example_blank_sheet =
     \<lparr>index = range_index 2,
      columns =
        [(''DT_NEGOCIO'', [Stamp 1, Stamp 2]),
         (''CD_SETOR'', [Str ''BANK'', Str ''OIL'']),
         (''CONTA'', [Str ''GENIAL'', Str ''ESTRANGEIRO'']),
         (''VL_NET'', [Num 3000000, Num 1000000]),
         (''VL_TOTAL'', [Num 3000000, NaN])]\<rparr>"

definition example_blank_canonical :: "string frame" where
  "example_blank_canonical =
     \<lparr>index = [Stamp 1, Stamp 2],
      columns =
        [(''SECTOR'', [Str ''BANK'', Str ''OIL'']),
         (''INV TYPE'', [Str ''RETAIL'', Str ''FOREIGNERS'']),
         (''NET R$'', [Num 3000000, Num 1000000]),
         (''TOTAL'', [Num 3000000, Str ''Others''])]\<rparr>"

lemma example_blank_clean:
  "clean_data (\<lambda>c. None) (init\<lparr>data := Some example_blank_sheet\<rparr>) =
   Done (init\<lparr>data := Some example_blank_canonical\<rparr>)"
  by (simp add: clean_steps frame_ops example_blank_sheet_def example_blank_canonical_def
      init_def range_index_def)

text \<open>
  C10. The fill of line 67 reaches the amount columns too. On a raw table whose date
  column converts and which has a sector and a category column, \<^verbatim>\<open>_clean_data\<close> returns
  whatever the amounts are, and each amount column of its result is the raw column with
  every missing amount replaced by the string \<open>Others\<close>, restricted to the rows of a valid
  category: a row with a missing amount is neither rejected nor dropped for it.
\<close>

theorem missing_amount_becomes_others:
  assumes "data s = Some raw" and "wellformed (rename raw column_mapping)"
    and "getitem raw ''DT_NEGOCIO'' = Some dt" and "to_datetime conv dt = Inr ds"
    and "getitem (rename raw column_mapping) ''SECTOR'' = Some secs"
    and "getitem (rename raw column_mapping) ''INV TYPE'' = Some conta"
    and "(old, new) \<in> {(''VL_COMPRA'', ''BUY R$''), (''VL_VENDA'', ''SELL R$''),
                        (''VL_NET'', ''NET R$''), (''VL_TOTAL'', ''TOTAL'')}"
    and "getitem raw old = Some amounts"
  shows "\<exists>out. clean_data conv s = Done (s\<lparr>data := Some out\<rparr>) \<and>
      getitem out new =
        Some (select (isin (replace investor_mapping (map (fill (Str ''Others'')) conta))
                        valid_investors)
               (map (fill (Str ''Others'')) amounts))"
proof -
  let ?p = "prepared raw ds"
  let ?secs = "map (fill (Str ''Others'')) secs"
  let ?invs = "map (fill (Str ''Others'')) conta"
  let ?out = "mask_rows (remapped ?p ?secs ?invs)
                (isin (replace investor_mapping ?invs) valid_investors)"
  have ps: "getitem ?p ''SECTOR'' = Some ?secs"
    using assms(5) by (simp add: prepared_def getitem_fillna getitem_rename_drop_date)
  have pi: "getitem ?p ''INV TYPE'' = Some ?invs"
    using assms(6) by (simp add: prepared_def getitem_fillna getitem_rename_drop_date)
  have "clean_frame conv raw = Inr ?out"
    unfolding clean_frame_Inr using assms(3,4) ps pi by blast
  then have 1: "clean_data conv s = Done (s\<lparr>data := Some ?out\<rparr>)"
    unfolding clean_data_Done using assms(1) by blast
  have new: "new = rename_label column_mapping old" "new \<noteq> ''DT_NEGOCIO''"
    "new \<noteq> ''SECTOR''" "new \<noteq> ''INV TYPE''"
    using assms(7) by (auto simp: rename_label_def column_mapping_def)
  have "getitem (rename raw column_mapping) new = Some amounts"
    unfolding new(1) using assms(2,8) by (rule getitem_rename)
  then have "getitem ?p new = Some (map (fill (Str ''Others'')) amounts)"
    using new(2) by (simp add: prepared_def getitem_fillna getitem_rename_drop_date)
  then have 2: "getitem ?out new =
      Some (select (isin (replace investor_mapping ?invs) valid_investors)
             (map (fill (Str ''Others'')) amounts))"
    using new(3,4) by (simp add: getitem_mask_rows remapped_def getitem_setitem)
  from 1 2 show ?thesis by blast
qed


text \<open>The theorem at a sheet of two rows, the second with no total amount.\<close>

theorem missing_amount_becomes_others_witness:
  "clean_data (\<lambda>c. None) (init\<lparr>data := Some example_blank_sheet\<rparr>) =
     Done (init\<lparr>data := Some example_blank_canonical\<rparr>) \<and>
   getitem example_blank_sheet ''VL_TOTAL'' = Some [Num 3000000, NaN] \<and>
   getitem example_blank_canonical ''TOTAL'' = Some [Num 3000000, Str ''Others'']"
proof -
  let ?s = "init\<lparr>data := Some example_blank_sheet\<rparr>"
  have a: "data ?s = Some example_blank_sheet" by simp
  have w: "wellformed (rename example_blank_sheet column_mapping)"
    by (simp add: wellformed_def rename_def rename_label_def column_mapping_def
        example_blank_sheet_def range_index_def)
  have dt: "getitem example_blank_sheet ''DT_NEGOCIO'' = Some [Stamp 1, Stamp 2]"
    by (simp add: getitem_def example_blank_sheet_def)
  have ds: "to_datetime (\<lambda>c. None) [Stamp 1, Stamp 2] = Inr [Stamp 1, Stamp 2]"
    by (simp add: to_datetime_def)
  have sc: "getitem (rename example_blank_sheet column_mapping) ''SECTOR'' =
      Some [Str ''BANK'', Str ''OIL'']"
    by (simp add: getitem_def rename_def rename_label_def column_mapping_def example_blank_sheet_def)
  have ct: "getitem (rename example_blank_sheet column_mapping) ''INV TYPE'' =
      Some [Str ''GENIAL'', Str ''ESTRANGEIRO'']"
    by (simp add: getitem_def rename_def rename_label_def column_mapping_def example_blank_sheet_def)
  have m: "(''VL_TOTAL'', ''TOTAL'') \<in> {(''VL_COMPRA'', ''BUY R$''), (''VL_VENDA'', ''SELL R$''),
                        (''VL_NET'', ''NET R$''), (''VL_TOTAL'', ''TOTAL'')}"
    by simp
  have am: "getitem example_blank_sheet ''VL_TOTAL'' = Some [Num 3000000, NaN]"
    by (simp add: getitem_def example_blank_sheet_def)
  from missing_amount_becomes_others[OF a w dt ds sc ct m am] obtain out where
    o: "clean_data (\<lambda>c. None) ?s = Done (?s\<lparr>data := Some out\<rparr>)"
       "getitem out ''TOTAL'' =
        Some (select (isin (replace investor_mapping
                 (map (fill (Str ''Others'')) [Str ''GENIAL'', Str ''ESTRANGEIRO'']))
                        valid_investors)
               (map (fill (Str ''Others'')) [Num 3000000, NaN]))"
    by blast
  from o(1) have "data (?s\<lparr>data := Some out\<rparr>) = data (init\<lparr>data := Some example_blank_canonical\<rparr>)"
    unfolding example_blank_clean by simp
  then have "out = example_blank_canonical" by simp
  with o(2) have "getitem example_blank_canonical ''TOTAL'' = Some [Num 3000000, Str ''Others'']"
    by (simp add: select_def isin_def replace_def replace1_def investor_mapping_def
        valid_investors_def fill_def)
  with am example_blank_clean show ?thesis by simp
qed

section \<open>Sums of groups\<close>

text \<open>The amount a cell stands for in a sum: its number, and nothing for a cell that is not one.\<close>

fun amount :: "cell \<Rightarrow> rat" where
  "amount (Num x) = x"
| "amount _ = 0"

definition numeric :: "cell \<Rightarrow> bool" where
  "numeric c \<longleftrightarrow> (case c of Num x \<Rightarrow> True | _ \<Rightarrow> False)"

lemma numeric_simps [simp]:
  "numeric (Num x)" "\<not> numeric NaN" "\<not> numeric (Str t)" "\<not> numeric (Stamp i)"
  by (simp_all add: numeric_def)

lemma traverse_Inr_iff:
  "traverse f xs = Inr ys \<longleftrightarrow> list_all2 (\<lambda>x y. f x = Inr y) xs ys"
proof (induction xs arbitrary: ys)
  case Nil
  then show ?case by auto
next
  case (Cons x xs)
  show ?case
  proof (cases "f x")
    case (Inl e)
    then show ?thesis by (auto simp: list_all2_Cons1)
  next
    case fx: (Inr y)
    show ?thesis
    proof (cases "traverse f xs")
      case (Inl e)
      with Cons.IH have "\<not> list_all2 (\<lambda>x y. f x = Inr y) xs zs" for zs
        by (metis sum.distinct(1))
      with Inl fx show ?thesis by (auto simp: list_all2_Cons1)
    next
      case (Inr zs)
      with Cons.IH have "list_all2 (\<lambda>x y. f x = Inr y) xs ws \<longleftrightarrow> ws = zs" for ws
        by (metis sum.inject(2))
      with Inr fx show ?thesis by (auto simp: list_all2_Cons1)
    qed
  qed
qed

lemma cell_add_Num:
  "cell_add a c = Inr (Num t) \<longleftrightarrow> (\<exists>x y. a = Num x \<and> c = Num y \<and> t = x + y)"
  by (cases a; cases c) auto

lemma sum_from_Num:
  "sum_from acc cs = Inr (Num t) \<Longrightarrow>
   numeric acc \<and> list_all numeric cs \<and> t = amount acc + sum_list (map amount cs)"
proof (induction cs arbitrary: acc)
  case Nil
  then show ?case by simp
next
  case (Cons c cs)
  from Cons.prems obtain acc' where
    a: "cell_add acc c = Inr acc'" "sum_from acc' cs = Inr (Num t)"
    by (auto split: sum.splits)
  from Cons.IH[OF a(2)] have
    i: "numeric acc'" "list_all numeric cs" "t = amount acc' + sum_list (map amount cs)"
    by simp_all
  from i(1) obtain z where "acc' = Num z" by (cases acc') simp_all
  with a(1) obtain x y where "acc = Num x" "c = Num y" "z = x + y"
    by (auto simp: cell_add_Num)
  with i \<open>acc' = Num z\<close> show ?case by simp
qed

lemma sum_from_not_NaN: "acc \<noteq> NaN \<Longrightarrow> sum_from acc cs \<noteq> Inr NaN"
proof (induction cs arbitrary: acc)
  case Nil
  then show ?case by simp
next
  case (Cons c cs)
  show ?case
  proof (cases "cell_add acc c")
    case (Inl e)
    then show ?thesis by simp
  next
    case (Inr acc')
    then have "acc' \<noteq> NaN" by (cases acc; cases c) auto
    with Cons.IH[of acc'] Inr show ?thesis by simp
  qed
qed

lemma agg_sum_not_NaN: "agg_sum cs \<noteq> Inr NaN"
proof (cases "filter notna cs")
  case Nil
  then show ?thesis by (simp add: agg_sum_def)
next
  case (Cons c rest)
  then have "c \<in> set (filter notna cs)" by simp
  then have "c \<noteq> NaN" by (simp add: notna_def)
  then show ?thesis using Cons sum_from_not_NaN by (simp add: agg_sum_def)
qed

lemma amount_filter_notna: "sum_list (map amount (filter notna cs)) = sum_list (map amount cs)"
  by (induction cs) (auto simp: notna_def)

lemma agg_sum_Num:
  assumes "agg_sum cs = Inr (Num t)"
  shows "t = sum_list (map amount cs)" and "list_all (\<lambda>c. c = NaN \<or> numeric c) cs"
proof -
  have "t = sum_list (map amount (filter notna cs)) \<and> list_all numeric (filter notna cs)"
  proof (cases "filter notna cs")
    case Nil
    with assms show ?thesis by (simp add: agg_sum_def)
  next
    case (Cons c rest)
    with assms have "sum_from c rest = Inr (Num t)" by (simp add: agg_sum_def)
    from sum_from_Num[OF this] Cons show ?thesis by simp
  qed
  then show "t = sum_list (map amount cs)" and "list_all (\<lambda>c. c = NaN \<or> numeric c) cs"
    by (auto simp: amount_filter_notna list_all_iff notna_def)
qed

lemma scale_Inr:
  "scale v = Inr x \<longleftrightarrow> (v = NaN \<and> x = NaN) \<or> (\<exists>y. v = Num y \<and> x = Num (y / 1000000))"
  by (cases v) auto

lemma agg_sum_scale:
  assumes "agg_sum cs = Inr v" "scale v = Inr x"
  shows "x = Num (sum_list (map amount cs) / 1000000)"
    and "list_all (\<lambda>c. c = NaN \<or> numeric c) cs"
proof -
  from assms(1) have "v \<noteq> NaN" using agg_sum_not_NaN by metis
  with assms(2) obtain y where y: "v = Num y" "x = Num (y / 1000000)"
    by (auto simp: scale_Inr)
  from agg_sum_Num[OF assms(1)[unfolded y(1)]] y(2)
  show "x = Num (sum_list (map amount cs) / 1000000)"
    and "list_all (\<lambda>c. c = NaN \<or> numeric c) cs"
    by simp_all
qed


lemma set_group_keys [simp]: "set (group_keys kf ks) = set ks"
  by (simp add: group_keys_def)

lemma distinct_group_keys [simp]: "distinct (group_keys kf ks)"
  by (simp add: group_keys_def)

lemma sorted_group_keys: "sorted (map kf (group_keys kf ks))"
  by (simp add: group_keys_def)

lemma list_all2_map_fst:
  "list_all2 P xs ys \<Longrightarrow> (\<And>x y. P x y \<Longrightarrow> fst y = x) \<Longrightarrow> map fst ys = xs"
  by (induction rule: list_all2_induct) auto

lemma list_all2_in_right:
  "list_all2 P xs ys \<Longrightarrow> y \<in> set ys \<Longrightarrow> \<exists>x \<in> set xs. P x y"
  by (induction rule: list_all2_induct) auto

lemma group_values_kept:
  "pr k \<Longrightarrow> group_values k (filter (\<lambda>kv. pr (fst kv)) rows) = group_values k rows"
proof -
  assume "pr k"
  then have "filter (\<lambda>kv. fst kv = k) (filter (\<lambda>kv. pr (fst kv)) rows) =
             filter (\<lambda>kv. fst kv = k) rows"
    by (induction rows) auto
  then show ?thesis by (simp add: group_values_def)
qed

lemma groupby_sum_keys:
  assumes "groupby_sum kf pr rows = Inr g"
  shows "map fst g = group_keys kf (map fst (filter (\<lambda>kv. pr (fst kv)) rows))"
proof -
  let ?kept = "filter (\<lambda>kv. pr (fst kv)) rows"
  from assms have "list_all2
      (\<lambda>k kv. (case agg_sum (group_values k ?kept) of Inl e \<Rightarrow> Inl e | Inr v \<Rightarrow> Inr (k, v)) = Inr kv)
      (group_keys kf (map fst ?kept)) g"
    by (simp add: groupby_sum_def Let_def traverse_Inr_iff)
  then show ?thesis
    by (rule list_all2_map_fst) (auto split: sum.splits)
qed

lemma groupby_sum_values:
  assumes "groupby_sum kf pr rows = Inr g" "kv \<in> set g"
  shows "pr (fst kv)" and "fst kv \<in> fst ` set rows"
    and "agg_sum (group_values (fst kv) rows) = Inr (snd kv)"
proof -
  let ?kept = "filter (\<lambda>kv. pr (fst kv)) rows"
  from assms(1) have "list_all2
      (\<lambda>k kv. (case agg_sum (group_values k ?kept) of Inl e \<Rightarrow> Inl e | Inr v \<Rightarrow> Inr (k, v)) = Inr kv)
      (group_keys kf (map fst ?kept)) g"
    by (simp add: groupby_sum_def Let_def traverse_Inr_iff)
  from list_all2_in_right[OF this assms(2)] obtain k where
    k: "k \<in> set (group_keys kf (map fst ?kept))"
       "(case agg_sum (group_values k ?kept) of Inl e \<Rightarrow> Inl e | Inr v \<Rightarrow> Inr (k, v)) = Inr kv"
    by blast
  from k(2) have e: "fst kv = k" "agg_sum (group_values k ?kept) = Inr (snd kv)"
    by (auto split: sum.splits)
  from k(1) have "k \<in> fst ` set ?kept" by simp
  then show p: "pr (fst kv)" and "fst kv \<in> fst ` set rows"
    unfolding e(1) by auto
  from e(2) group_values_kept[of pr k rows] p e(1)
  show "agg_sum (group_values (fst kv) rows) = Inr (snd kv)" by simp
qed

section \<open>Properties of the aggregations\<close>

lemma run_Cons_Done:
  "run (f # fs) s = Done s' \<longleftrightarrow> (\<exists>s1. f s = Done s1 \<and> run fs s1 = Done s')"
  by (auto split: outcome.splits)

lemma assign_Done:
  "assign rhs store s = Done s' \<longleftrightarrow> (\<exists>v. rhs s = Inr v \<and> s' = store v s)"
  by (auto simp: assign_def split: sum.splits)

lemma attr_Inr: "attr e a f = Inr v \<longleftrightarrow> (\<exists>x. a = Some x \<and> f x = Inr v)"
  by (auto simp: attr_def split: option.splits)


text \<open>
  What \<^verbatim>\<open>_process_data\<close> computes from one table: the five right-hand sides, each with
  its later in-place steps applied.
\<close>

definition summary_of :: "string frame \<Rightarrow> pyerror + string frame" where
  "summary_of df =
     (case sector_sums df of Inl e \<Rightarrow> Inl e | Inr v \<Rightarrow> scale_column v ''NET R$'' KeyError)"

definition dense_of :: "'l frame \<Rightarrow> pyerror + 'l frame" where
  "dense_of pv = scale_frame (fillna pv (Num 0))"

lemma process_data_Done:
  "process_data s = Done s' \<longleftrightarrow>
   (\<exists>df v t vt d e.
      data s = Some df \<and> summary_of df = Inr v \<and>
      type_sums ''NET R$'' df = Inr t \<and> type_sums ''TOTAL'' df = Inr vt \<and>
      (\<exists>pv. daily_pivot df = Inr pv \<and> dense_of pv = Inr d) \<and>
      (\<exists>pv. sector_pivot df = Inr pv \<and> dense_of pv = Inr e) \<and>
      s' = s\<lparr>net_sector_summary := Some v, total_net_by_type := Some t,
              volume_total_by_type := Some vt, daily_evolution := Some d,
              evol_sector := Some e\<rparr>)"
  unfolding process_data_def process_statements_def run_Cons_Done assign_Done attr_Inr
    summary_of_def dense_of_def
  by (cases "data s") (auto split: sum.splits)


text \<open>
  The rows of a table as the aggregations read them: the key of a row with its amount.
  \<open>sector_rows\<close> reads a canonical table and the sector summary alike, both have the
  columns \<^verbatim>\<open>INV TYPE\<close>, \<^verbatim>\<open>SECTOR\<close> and \<^verbatim>\<open>NET R$\<close>.
\<close>

definition col :: "'l frame \<Rightarrow> 'l \<Rightarrow> cell list" where
  "col df k = (case getitem df k of None \<Rightarrow> [] | Some cs \<Rightarrow> cs)"

definition sector_rows :: "string frame \<Rightarrow> ((cell \<times> cell) \<times> cell) list" where
  "sector_rows df = zip (zip (col df ''INV TYPE'') (col df ''SECTOR'')) (col df ''NET R$'')"

definition type_rows :: "string \<Rightarrow> string frame \<Rightarrow> (cell \<times> cell) list" where
  "type_rows c df = zip (col df ''INV TYPE'') (col df c)"

definition daily_rows :: "string frame \<Rightarrow> ((cell \<times> cell) \<times> cell) list" where
  "daily_rows df = zip (zip (index df) (col df ''INV TYPE'')) (col df ''NET R$'')"

definition evol_rows :: "string frame \<Rightarrow> ((cell \<times> cell \<times> cell) \<times> cell) list" where
  "evol_rows df =
     zip (zip (index df) (zip (col df ''INV TYPE'') (col df ''SECTOR''))) (col df ''NET R$'')"

text \<open>The sum of the amounts of the rows with key \<open>k\<close>, in millions.\<close>

definition millions :: "'k \<Rightarrow> ('k \<times> cell) list \<Rightarrow> cell" where
  "millions k rows = Num (sum_list (map amount (group_values k rows)) / 1000000)"

lemma col_Some [simp]: "getitem df k = Some cs \<Longrightarrow> col df k = cs"
  by (simp add: col_def)

lemma zip_map_fst_snd': "zip (map f xs) (map g xs) = map (\<lambda>x. (f x, g x)) xs"
  by (induction xs) auto

lemma scale_pair_Inr:
  "(case scale v of Inl e \<Rightarrow> Inl e | Inr x \<Rightarrow> Inr (k, x)) = Inr kx \<longleftrightarrow>
   fst kx = k \<and> scale v = Inr (snd kx)"
  by (cases "scale v"; cases kx) auto

lemma type_sums_Inr:
  assumes "type_sums c df = Inr t"
  shows "map fst t = group_keys cell_key (map fst (filter (\<lambda>kv. notna (fst kv)) (type_rows c df)))"
    and "kx \<in> set t \<Longrightarrow> snd kx = millions (fst kx) (type_rows c df)"
    and "kx \<in> set t \<Longrightarrow> list_all (\<lambda>x. x = NaN \<or> numeric x) (group_values (fst kx) (type_rows c df))"
proof -
  from assms obtain invs vals g where
    h: "getitem df ''INV TYPE'' = Some invs" "getitem df c = Some vals"
       "groupby_sum cell_key notna (zip invs vals) = Inr g" "scale_series g = Inr t"
    by (auto simp: type_sums_def split: option.splits sum.splits)
  have r: "type_rows c df = zip invs vals"
    using h(1,2) by (simp add: type_rows_def)
  from h(4) have l: "list_all2 (\<lambda>kv kx. fst kx = fst kv \<and> scale (snd kv) = Inr (snd kx)) g t"
    by (simp add: scale_series_def traverse_Inr_iff scale_pair_Inr)
  have "map fst t = map fst g"
    using l by (induction rule: list_all2_induct) auto
  then show "map fst t = group_keys cell_key (map fst (filter (\<lambda>kv. notna (fst kv)) (type_rows c df)))"
    using groupby_sum_keys[OF h(3)] r by simp
  assume "kx \<in> set t"
  from list_all2_in_right[OF l this] obtain kv where
    kv: "kv \<in> set g" "fst kx = fst kv" "scale (snd kv) = Inr (snd kx)"
    by blast
  from groupby_sum_values(3)[OF h(3) kv(1)] kv(2)
  have a: "agg_sum (group_values (fst kx) (type_rows c df)) = Inr (snd kv)"
    using r by simp
  from agg_sum_scale[OF a kv(3)]
  show "snd kx = millions (fst kx) (type_rows c df)"
    and "list_all (\<lambda>x. x = NaN \<or> numeric x) (group_values (fst kx) (type_rows c df))"
    by (simp_all add: millions_def)
qed


lemma scaled_groups:
  assumes "groupby_sum kf pr rows = Inr g"
    and "list_all2 (\<lambda>kv kx. fst kx = fst kv \<and> scale (snd kv) = Inr (snd kx)) g t"
  shows "map fst t = group_keys kf (map fst (filter (\<lambda>kv. pr (fst kv)) rows))"
    and "kx \<in> set t \<Longrightarrow> snd kx = millions (fst kx) rows"
    and "kx \<in> set t \<Longrightarrow> list_all (\<lambda>x. x = NaN \<or> numeric x) (group_values (fst kx) rows)"
    and "kx \<in> set t \<Longrightarrow> pr (fst kx)"
proof -
  have "map fst t = map fst g"
    using assms(2) by (induction rule: list_all2_induct) auto
  then show "map fst t = group_keys kf (map fst (filter (\<lambda>kv. pr (fst kv)) rows))"
    using groupby_sum_keys[OF assms(1)] by simp
  assume "kx \<in> set t"
  from list_all2_in_right[OF assms(2) this] obtain kv where
    kv: "kv \<in> set g" "fst kx = fst kv" "scale (snd kv) = Inr (snd kx)"
    by blast
  from groupby_sum_values(3)[OF assms(1) kv(1)] kv(2)
  have a: "agg_sum (group_values (fst kx) rows) = Inr (snd kv)"
    by simp
  from agg_sum_scale[OF a kv(3)]
  show "snd kx = millions (fst kx) rows"
    and "list_all (\<lambda>x. x = NaN \<or> numeric x) (group_values (fst kx) rows)"
    by (simp_all add: millions_def)
  from groupby_sum_values(1)[OF assms(1) kv(1)] kv(2) show "pr (fst kx)" by simp
qed

lemma zip_keys_values:
  "list_all2 P (map snd g) cs \<Longrightarrow>
   list_all2 (\<lambda>kv kx. fst kx = fst kv \<and> P (snd kv) (snd kx)) g
     (zip (zip (map (\<lambda>kv. fst (fst kv)) g) (map (\<lambda>kv. snd (fst kv)) g)) cs)"
proof (induction g arbitrary: cs)
  case Nil
  then show ?case by simp
next
  case (Cons kv g)
  then show ?case by (cases cs) auto
qed

lemma summary_of_Inr:
  assumes "summary_of df = Inr v"
  shows "\<exists>g. groupby_sum pair_key pair_notna (sector_rows df) = Inr g \<and>
      list_all2 (\<lambda>kv kx. fst kx = fst kv \<and> scale (snd kv) = Inr (snd kx)) g (sector_rows v) \<and>
      index v = range_index (length g) \<and>
      map fst (columns v) = [''INV TYPE'', ''SECTOR'', ''NET R$''] \<and>
      list_all (\<lambda>kc. length (snd kc) = length g) (columns v)"
proof -
  from assms obtain invs secs nets g cs where
    h: "getitem df ''INV TYPE'' = Some invs" "getitem df ''SECTOR'' = Some secs"
       "getitem df ''NET R$'' = Some nets"
       "groupby_sum pair_key pair_notna (zip (zip invs secs) nets) = Inr g"
       "traverse scale (map snd g) = Inr cs"
       "v = \<lparr>index = range_index (length g),
              columns = [(''INV TYPE'', map (\<lambda>kv. fst (fst kv)) g),
                         (''SECTOR'', map (\<lambda>kv. snd (fst kv)) g),
                         (''NET R$'', cs)]\<rparr>"
    by (auto simp: summary_of_def sector_sums_def scale_column_def getitem_def setitem_def
        split: option.splits sum.splits)
  have r: "sector_rows df = zip (zip invs secs) nets"
    using h(1,2,3) by (simp add: sector_rows_def)
  from h(5) have l: "list_all2 (\<lambda>x y. scale x = Inr y) (map snd g) cs"
    by (simp add: traverse_Inr_iff)
  then have n: "length cs = length g"
    by (auto dest: list_all2_lengthD)
  have rv: "sector_rows v =
      zip (zip (map (\<lambda>kv. fst (fst kv)) g) (map (\<lambda>kv. snd (fst kv)) g)) cs"
    by (simp add: sector_rows_def col_def getitem_def h(6))
  show ?thesis
    using h(4) zip_keys_values[OF l] n unfolding r rv by (simp add: h(6))
qed


lemma list_all2_map_determined:
  "list_all2 Q (map h xs) ys \<Longrightarrow> (\<And>x y. x \<in> set xs \<Longrightarrow> Q (h x) y \<Longrightarrow> y = m x) \<Longrightarrow>
   ys = map m xs"
proof (induction xs arbitrary: ys)
  case Nil
  then show ?case by simp
next
  case (Cons x xs)
  then show ?case by (cases ys) auto
qed

lemma group_values_empty: "k \<notin> fst ` set rows \<Longrightarrow> group_values k rows = []"
  by (auto simp: group_values_def filter_empty_conv)

lemma millions_empty: "k \<notin> fst ` set rows \<Longrightarrow> millions k rows = Num 0"
  by (simp add: millions_def group_values_empty)

lemma pivot_cell:
  assumes g: "groupby_sum kf pr rows = Inr g" and k: "pr k"
    and s: "scale (fill (Num 0) (case map_of g k of None \<Rightarrow> NaN | Some v \<Rightarrow> v)) = Inr y"
  shows "y = millions k rows"
proof (cases "map_of g k")
  case None
  then have "k \<notin> fst ` set g" by (simp add: map_of_eq_None_iff)
  then have "k \<notin> set (map fst g)" by simp
  then have "k \<notin> fst ` set (filter (\<lambda>kv. pr (fst kv)) rows)"
    unfolding groupby_sum_keys[OF g] by simp
  then have "group_values k (filter (\<lambda>kv. pr (fst kv)) rows) = []"
    by (rule group_values_empty)
  then have "group_values k rows = []"
    using group_values_kept[of pr k rows] k by simp
  moreover from None s have "y = Num 0" by (simp add: fill_def)
  ultimately show ?thesis by (simp add: millions_def)
next
  case (Some v)
  then have "(k, v) \<in> set g" by (rule map_of_SomeD)
  from groupby_sum_values(3)[OF g this] have a: "agg_sum (group_values k rows) = Inr v" by simp
  then have "v \<noteq> NaN" using agg_sum_not_NaN by metis
  with Some s have "scale v = Inr y" by (simp add: fill_def)
  from agg_sum_scale(1)[OF a this] show ?thesis by (simp add: millions_def)
qed


lemma scale_frame_InrD:
  assumes "scale_frame df = Inr d"
  shows "index d = index df"
    and "list_all2 (\<lambda>kc kc'. fst kc' = fst kc \<and> list_all2 (\<lambda>x y. scale x = Inr y) (snd kc) (snd kc'))
     (columns df) (columns d)"
proof -
  have p: "(case traverse scale cs of Inl e \<Rightarrow> Inl e | Inr cs' \<Rightarrow> Inr (k, cs')) = Inr kc' \<Longrightarrow>
        fst kc' = k \<and> list_all2 (\<lambda>x y. scale x = Inr y) cs (snd kc')" for cs k kc'
    by (cases "traverse scale cs"; cases kc') (auto simp: traverse_Inr_iff[symmetric])
  from assms obtain cols where
    c: "traverse (\<lambda>kc. case traverse scale (snd kc) of Inl e \<Rightarrow> Inl e | Inr cs \<Rightarrow> Inr (fst kc, cs))
          (columns df) = Inr cols" "d = df\<lparr>columns := cols\<rparr>"
    by (auto simp: scale_frame_def split: sum.splits)
  show "index d = index df" by (simp add: c(2))
  from c(1) have "list_all2
      (\<lambda>kc kc'. (case traverse scale (snd kc) of Inl e \<Rightarrow> Inl e | Inr cs \<Rightarrow> Inr (fst kc, cs)) = Inr kc')
      (columns df) cols"
    by (simp add: traverse_Inr_iff)
  then have "list_all2 (\<lambda>kc kc'. fst kc' = fst kc \<and> list_all2 (\<lambda>x y. scale x = Inr y) (snd kc) (snd kc'))
     (columns df) cols"
    by (rule list_all2_mono) (rule p)
  then show "list_all2 (\<lambda>kc kc'. fst kc' = fst kc \<and> list_all2 (\<lambda>x y. scale x = Inr y) (snd kc) (snd kc'))
     (columns df) (columns d)"
    by (simp add: c(2))
qed

lemma list_all2_same_fst:
  "list_all2 (\<lambda>x y. fst y = fst x \<and> R x y) xs ys \<Longrightarrow> map fst ys = map fst xs"
  by (induction rule: list_all2_induct) auto

lemma pivot_dense:
  assumes pv: "pivot_sum kf pr rows = Inr pv" and d: "dense_of pv = Inr d"
  defines "kept \<equiv> filter (\<lambda>kv. notna (fst (fst kv)) \<and> pr (snd (fst kv))) rows"
  shows "set (index d) = (\<lambda>kv. fst (fst kv)) ` set kept"
    and "distinct (index d)" and "sorted (map cell_key (index d))"
    and "set (map fst (columns d)) = (\<lambda>kv. snd (fst kv)) ` set kept"
    and "distinct (map fst (columns d))" and "sorted (map kf (map fst (columns d)))"
    and "kc \<in> set (columns d) \<Longrightarrow> snd kc = map (\<lambda>dt. millions (dt, fst kc) rows) (index d)"
proof -
  let ?K = "\<lambda>dc. (cell_key (fst dc), kf (snd dc))"
  let ?P = "\<lambda>dc. notna (fst dc) \<and> pr (snd dc)"
  from pv obtain g where
    g: "groupby_sum ?K ?P rows = Inr g"
    and pvd: "pv = \<lparr>index = group_keys cell_key (map (\<lambda>kv. fst (fst kv)) g),
        columns = map (\<lambda>c. (c, map (\<lambda>d. case map_of g (d, c) of None \<Rightarrow> NaN | Some v \<Rightarrow> v)
                               (group_keys cell_key (map (\<lambda>kv. fst (fst kv)) g))))
                      (group_keys kf (map (\<lambda>kv. snd (fst kv)) g))\<rparr>"
    by (auto simp: pivot_sum_def Let_def split: sum.splits)
  let ?dates = "group_keys cell_key (map (\<lambda>kv. fst (fst kv)) g)"
  let ?cols = "group_keys kf (map (\<lambda>kv. snd (fst kv)) g)"
  let ?cell = "\<lambda>c dt. fill (Num 0) (case map_of g (dt, c) of None \<Rightarrow> NaN | Some v \<Rightarrow> v)"
  have keys: "set (map fst g) = fst ` set kept"
    unfolding groupby_sum_keys[OF g] kept_def by simp
  from d have sf: "index d = ?dates"
    "list_all2 (\<lambda>kc kc'. fst kc' = fst kc \<and> list_all2 (\<lambda>x y. scale x = Inr y) (snd kc) (snd kc'))
       (map (\<lambda>c. (c, map (?cell c) ?dates)) ?cols) (columns d)"
    using scale_frame_InrD[OF d[unfolded dense_of_def]]
    by (simp_all add: pvd fillna_def comp_def)
  have "set ?dates = fst ` set (map fst g)" by (simp add: image_image)
  then show "set (index d) = (\<lambda>kv. fst (fst kv)) ` set kept"
    unfolding sf(1) keys by (simp add: image_image)
  show "distinct (index d)" "sorted (map cell_key (index d))"
    unfolding sf(1) by (simp_all add: sorted_group_keys)
  have lab: "map fst (columns d) = ?cols"
    using list_all2_same_fst[OF sf(2)] by (simp add: comp_def)
  have "set ?cols = snd ` set (map fst g)" by (simp add: image_image)
  then show "set (map fst (columns d)) = (\<lambda>kv. snd (fst kv)) ` set kept"
    unfolding lab keys by (simp add: image_image)
  show "distinct (map fst (columns d))" "sorted (map kf (map fst (columns d)))"
    unfolding lab by (simp_all add: sorted_group_keys)
  assume "kc \<in> set (columns d)"
  from list_all2_in_right[OF sf(2) this] obtain c where
    c: "c \<in> set ?cols" "fst kc = c"
       "list_all2 (\<lambda>x y. scale x = Inr y) (map (?cell c) ?dates) (snd kc)"
    by auto
  from c(1) have "c \<in> snd ` set (map fst g)" by (simp add: image_image)
  then have pc: "pr c" unfolding keys kept_def by auto
  have "snd kc = map (\<lambda>dt. millions (dt, c) rows) ?dates"
    using c(3)
  proof (rule list_all2_map_determined)
    fix dt y
    assume "dt \<in> set ?dates" and y: "scale (?cell c dt) = Inr y"
    then have "dt \<in> fst ` set (map fst g)" by (simp add: image_image)
    then have "notna dt" unfolding keys kept_def by auto
    with pc have "?P (dt, c)" by simp
    with g show "y = millions (dt, c) rows"
      using y by (rule pivot_cell)
  qed
  then show "snd kc = map (\<lambda>dt. millions (dt, fst kc) rows) (index d)"
    unfolding sf(1) c(2) .
qed

section \<open>A loaded example\<close>

definition example_loaded :: dashboard where
  "example_loaded =
     \<lparr>data = Some example_canonical,
      net_sector_summary =
        Some \<lparr>index = [Num 0, Num 1, Num 2],
              columns =
                [(''INV TYPE'', [Str ''FOREIGNERS'', Str ''LOCALS'', Str ''RETAIL'']),
                 (''SECTOR'', [Str ''Others'', Str ''BANK'', Str ''BANK'']),
                 (''NET R$'', [Num (- 1), Num (1 / 2), Num 2])]\<rparr>,
      daily_evolution =
        Some \<lparr>index = [Stamp 1, Stamp 2],
              columns =
                [(Str ''FOREIGNERS'', [Num (- 1), Num 0]),
                 (Str ''LOCALS'', [Num 0, Num (1 / 2)]),
                 (Str ''RETAIL'', [Num 2, Num 0])]\<rparr>,
      evol_sector =
        Some \<lparr>index = [Stamp 1, Stamp 2],
              columns =
                [((Str ''FOREIGNERS'', Str ''Others''), [Num (- 1), Num 0]),
                 ((Str ''LOCALS'', Str ''BANK''), [Num 0, Num (1 / 2)]),
                 ((Str ''RETAIL'', Str ''BANK''), [Num 2, Num 0])]\<rparr>,
      total_net_by_type =
        Some [(Str ''FOREIGNERS'', Num (- 1)), (Str ''LOCALS'', Num (1 / 2)), (Str ''RETAIL'', Num 2)],
      volume_total_by_type =
        Some [(Str ''FOREIGNERS'', Num 1), (Str ''LOCALS'', Num (1 / 2)), (Str ''RETAIL'', Num 5)]\<rparr>"

lemma example_process:
  "process_data (init\<lparr>data := Some example_canonical\<rparr>) = Done example_loaded"
  by code_simp


lemma daily_pivot_rows: "daily_pivot df = Inr pv \<Longrightarrow> pivot_sum cell_key notna (daily_rows df) = Inr pv"
  by (auto simp: daily_pivot_def daily_rows_def split: option.splits)

lemma sector_pivot_rows:
  "sector_pivot df = Inr pv \<Longrightarrow> pivot_sum pair_key pair_notna (evol_rows df) = Inr pv"
  by (auto simp: sector_pivot_def evol_rows_def split: option.splits)

text \<open>
  \<open>millions\<close> is an exact quotient of an exact sum. The running program holds its amounts
  in float64 or int64 columns, adds them with the library's grouped sum and divides in
  floating point, so its values are those of this model up to the rounding of each of these
  operations (and an int64 sum that leaves the 64-bit range wraps). That rounding is not
  modelled: nothing here says what the floating-point value of a view is.
\<close>

section \<open>Sector sums and totals\<close>

lemma sum_list_indicator:
  "distinct xs \<Longrightarrow>
   sum_list (map (\<lambda>k. if k = a then v else (0::rat)) xs) = (if a \<in> set xs then v else 0)"
  by (induction xs) auto

lemma group_values_Cons:
  "group_values k (kv # rows) = (if fst kv = k then snd kv # group_values k rows else group_values k rows)"
  by (simp add: group_values_def)

lemma sum_groups_partition:
  assumes "distinct ks" and "\<And>kv. kv \<in> set rows \<Longrightarrow> P (fst kv) \<Longrightarrow> fst kv \<in> set ks"
  shows "sum_list (map (\<lambda>k. sum_list (map amount (group_values k rows))) (filter P ks)) =
         sum_list (map amount (map snd (filter (\<lambda>kv. P (fst kv)) rows)))"
  using assms(2)
proof (induction rows)
  case Nil
  then show ?case by (simp add: group_values_def)
next
  case (Cons kv rows)
  have d: "distinct (filter P ks)" using assms(1) by simp
  have "sum_list (map (\<lambda>k. sum_list (map amount (group_values k (kv # rows)))) (filter P ks)) =
        sum_list (map (\<lambda>k. (if k = fst kv then amount (snd kv) else 0) +
                            sum_list (map amount (group_values k rows))) (filter P ks))"
    by (intro arg_cong[where f = sum_list] map_cong refl) (simp add: group_values_Cons)
  also have "\<dots> = sum_list (map (\<lambda>k. if k = fst kv then amount (snd kv) else 0) (filter P ks)) +
        sum_list (map (\<lambda>k. sum_list (map amount (group_values k rows))) (filter P ks))"
    by (simp add: sum_list_addf)
  also have "sum_list (map (\<lambda>k. if k = fst kv then amount (snd kv) else 0) (filter P ks)) =
        (if fst kv \<in> set (filter P ks) then amount (snd kv) else 0)"
    using d by (rule sum_list_indicator)
  also have "\<dots> = (if P (fst kv) then amount (snd kv) else 0)"
    using Cons.prems[of kv] by auto
  also have "sum_list (map (\<lambda>k. sum_list (map amount (group_values k rows))) (filter P ks)) =
        sum_list (map amount (map snd (filter (\<lambda>kv. P (fst kv)) rows)))"
    using Cons.prems by (intro Cons.IH) simp
  finally show ?case by simp
qed

lemma sum_scaled_by_key:
  assumes "\<And>kx. kx \<in> set kxs \<Longrightarrow> snd kx = Num (S (fst kx) / 1000000)"
  shows "sum_list (map amount (map snd (filter (\<lambda>kx. Q (fst kx)) kxs))) =
         sum_list (map S (filter Q (map fst kxs))) / 1000000"
  using assms
proof (induction kxs)
  case Nil
  then show ?case by simp
next
  case (Cons kx kxs)
  then show ?case by (simp add: add_divide_distrib)
qed

lemma group_values_zip3:
  "length invs = length secs \<Longrightarrow> length secs = length nets \<Longrightarrow>
   map snd (filter (\<lambda>kv. fst (fst kv) = c) (zip (zip invs secs) nets)) =
   group_values c (zip invs nets)"
  by (induction invs secs nets rule: list_induct3) (auto simp: group_values_def)


text \<open>A canonical table: one cell per row in every column, and no missing cell.\<close>

definition canonical :: "string frame \<Rightarrow> bool" where
  "canonical df \<longleftrightarrow> wellformed df \<and> list_all (\<lambda>kc. NaN \<notin> set (snd kc)) (columns df)"

lemma clean_data_gives_canonical:
  assumes "clean_data conv s0 = Done s" "data s0 = Some raw" "wellformed (rename raw column_mapping)"
  shows "\<exists>df. data s = Some df \<and> canonical df"
proof -
  from assms(1,2) obtain df where
    df: "clean_frame conv raw = Inr df" "s = s0\<lparr>data := Some df\<rparr>"
    unfolding clean_data_Done by auto
  have "canonical df"
    using clean_frame_wellformed[OF df(1) assms(3)] clean_frame_notna[OF df(1)]
    by (simp add: canonical_def list_all_iff)
  then show ?thesis by (simp add: df(2))
qed

lemma canonical_col:
  assumes "canonical df"
  shows "NaN \<notin> set (col df k)" and "getitem df k \<noteq> None \<Longrightarrow> length (col df k) = length (index df)"
proof -
  show "NaN \<notin> set (col df k)"
  proof (cases "getitem df k")
    case None
    then show ?thesis by (simp add: col_def)
  next
    case (Some cs)
    from getitem_in_columns[OF this] assms have "NaN \<notin> set cs"
      by (auto simp: canonical_def list_all_iff)
    with Some show ?thesis by simp
  qed
  assume "getitem df k \<noteq> None"
  then obtain cs where "getitem df k = Some cs" by auto
  with wellformed_getitem[of df k cs] assms show "length (col df k) = length (index df)"
    by (simp add: canonical_def)
qed

lemma summary_of_columns:
  "summary_of df = Inr v \<Longrightarrow>
   getitem df ''INV TYPE'' \<noteq> None \<and> getitem df ''SECTOR'' \<noteq> None \<and> getitem df ''NET R$'' \<noteq> None"
  by (auto simp: summary_of_def sector_sums_def split: option.splits)

lemma canonical_sector_rows_kept:
  assumes "canonical df"
  shows "filter (\<lambda>kv. pair_notna (fst kv)) (sector_rows df) = sector_rows df"
proof -
  have "pair_notna (fst kv)" if "kv \<in> set (sector_rows df)" for kv
  proof -
    from that have "fst kv \<in> set (zip (col df ''INV TYPE'') (col df ''SECTOR''))"
      unfolding sector_rows_def by (metis prod.collapse set_zip_leftD)
    then have "fst (fst kv) \<in> set (col df ''INV TYPE'')" "snd (fst kv) \<in> set (col df ''SECTOR'')"
      by (metis prod.collapse set_zip_leftD, metis prod.collapse set_zip_rightD)
    with canonical_col(1)[OF assms] show ?thesis
      by (auto simp: pair_notna_def notna_def)
  qed
  then show ?thesis by simp
qed

lemma canonical_type_rows_kept:
  assumes "canonical df"
  shows "filter (\<lambda>kv. notna (fst kv)) (type_rows c df) = type_rows c df"
proof -
  have "notna (fst kv)" if "kv \<in> set (type_rows c df)" for kv
  proof -
    from that have "fst kv \<in> set (col df ''INV TYPE'')"
      unfolding type_rows_def by (metis prod.collapse set_zip_leftD)
    with canonical_col(1)[OF assms] show ?thesis
      by (auto simp: notna_def)
  qed
  then show ?thesis by simp
qed


lemma sector_sums_add_up_frame:
  assumes c: "canonical df" and v: "summary_of df = Inr v"
    and t: "type_sums ''NET R$'' df = Inr t" and cx: "cx \<in> set t"
  shows "snd cx =
     Num (sum_list (map amount (map snd (filter (\<lambda>kx. fst (fst kx) = fst cx) (sector_rows v)))))"
proof -
  let ?rows = "sector_rows df"
  let ?S = "\<lambda>k. sum_list (map amount (group_values k ?rows))"
  let ?Q = "\<lambda>k. fst k = fst cx"
  from summary_of_Inr[OF v] obtain g where
    g: "groupby_sum pair_key pair_notna ?rows = Inr g"
       "list_all2 (\<lambda>kv kx. fst kx = fst kv \<and> scale (snd kv) = Inr (snd kx)) g (sector_rows v)"
    by blast
  have keys: "map fst (sector_rows v) = group_keys pair_key (map fst ?rows)"
    using scaled_groups(1)[OF g] canonical_sector_rows_kept[OF c] by simp
  have vals: "snd kx = Num (?S (fst kx) / 1000000)" if "kx \<in> set (sector_rows v)" for kx
    using scaled_groups(2)[OF g that] by (simp add: millions_def)
  have len: "length (col df ''INV TYPE'') = length (col df ''SECTOR'')"
    "length (col df ''SECTOR'') = length (col df ''NET R$'')"
    using summary_of_columns[OF v] canonical_col(2)[OF c] by simp_all
  have "sum_list (map amount (map snd (filter (\<lambda>kx. ?Q (fst kx)) (sector_rows v)))) =
        sum_list (map ?S (filter ?Q (map fst (sector_rows v)))) / 1000000"
    using vals by (rule sum_scaled_by_key)
  also have "sum_list (map ?S (filter ?Q (map fst (sector_rows v)))) =
        sum_list (map amount (map snd (filter (\<lambda>kv. ?Q (fst kv)) ?rows)))"
    unfolding keys by (rule sum_groups_partition) simp_all
  also have "map snd (filter (\<lambda>kv. ?Q (fst kv)) ?rows) =
        group_values (fst cx) (type_rows ''NET R$'' df)"
    unfolding sector_rows_def type_rows_def using len by (rule group_values_zip3)
  finally have "sum_list (map amount (map snd (filter (\<lambda>kx. ?Q (fst kx)) (sector_rows v)))) =
      sum_list (map amount (group_values (fst cx) (type_rows ''NET R$'' df))) / 1000000" .
  with type_sums_Inr(2)[OF t cx] show ?thesis
    by (simp add: millions_def)
qed

lemma type_sums_categories:
  assumes c: "canonical df" and t: "type_sums col' df = Inr t"
  shows "distinct (map fst t)" and "set (map fst t) = set (col df ''INV TYPE'')"
proof -
  from t have "getitem df ''INV TYPE'' \<noteq> None" "getitem df col' \<noteq> None"
    by (auto simp: type_sums_def split: option.splits)
  then have "length (col df ''INV TYPE'') = length (col df col')"
    using canonical_col(2)[OF c] by simp
  then have m: "map fst (type_rows col' df) = col df ''INV TYPE''"
    by (simp add: type_rows_def)
  have k: "map fst t = group_keys cell_key (map fst (type_rows col' df))"
    using type_sums_Inr(1)[OF t] canonical_type_rows_kept[OF c] by simp
  show "distinct (map fst t)" unfolding k by simp
  show "set (map fst t) = set (col df ''INV TYPE'')" unfolding k m by simp
qed

text \<open>
  C2. On the canonical table that \<^verbatim>\<open>_clean_data\<close> leaves, when \<^verbatim>\<open>_process_data\<close> returns:
  the total net of every category equals the sum of the sector summary's values over the
  entries of that category, and the totals have exactly one entry for each category of the
  table. The arithmetic is exact.
\<close>

theorem sector_sums_add_up:
  assumes "clean_data conv s0 = Done s" and "data s0 = Some raw"
    and "wellformed (rename raw column_mapping)" and "process_data s = Done s'"
  shows "\<exists>df v t.
      data s = Some df \<and> net_sector_summary s' = Some v \<and> total_net_by_type s' = Some t \<and>
      distinct (map fst t) \<and> set (map fst t) = set (col df ''INV TYPE'') \<and>
      (\<forall>cx \<in> set t.
         snd cx =
         Num (sum_list (map amount (map snd
                (filter (\<lambda>kx. fst (fst kx) = fst cx) (sector_rows v))))))"
proof -
  from clean_data_gives_canonical[OF assms(1,2,3)] obtain df where
    df: "data s = Some df" "canonical df"
    by blast
  from assms(4) df(1) obtain v t where
    h: "summary_of df = Inr v" "type_sums ''NET R$'' df = Inr t"
       "net_sector_summary s' = Some v" "total_net_by_type s' = Some t"
    unfolding process_data_Done by auto
  from sector_sums_add_up_frame[OF df(2) h(1,2)] type_sums_categories[OF df(2) h(2)] df(1) h(3,4)
  show ?thesis by blast
qed


definition example_mixed_sheet :: "string frame" where
  "example_mixed_sheet =
     \<lparr>index = range_index 4,
      columns =
        [(''DT_NEGOCIO'', [Stamp 1, Stamp 1, Stamp 2, Stamp 2]),
         (''CD_SETOR'', [Str ''BANK'', Str ''OIL'', Str ''BANK'', Str ''FII'']),
         (''CONTA'', [Str ''GENIAL'', Str ''GENIAL'', Str ''GENIAL'', Str ''ESTRANGEIRO'']),
         (''VL_NET'', [Num 2000000, Num 1000000, Num 500000, Num (- 1000000)]),
         (''VL_TOTAL'', [Num 2000000, Num 1000000, Num 500000, Num 1000000])]\<rparr>"

definition example_mixed_canonical :: "string frame" where
  "example_mixed_canonical =
     \<lparr>index = [Stamp 1, Stamp 1, Stamp 2, Stamp 2],
      columns =
        [(''SECTOR'', [Str ''BANK'', Str ''OIL'', Str ''BANK'', Str ''Others'']),
         (''INV TYPE'', [Str ''RETAIL'', Str ''RETAIL'', Str ''RETAIL'', Str ''FOREIGNERS'']),
         (''NET R$'', [Num 2000000, Num 1000000, Num 500000, Num (- 1000000)]),
         (''TOTAL'', [Num 2000000, Num 1000000, Num 500000, Num 1000000])]\<rparr>"

definition example_mixed_summary :: "string frame" where
  "example_mixed_summary =
     \<lparr>index = [Num 0, Num 1, Num 2],
      columns =
        [(''INV TYPE'', [Str ''FOREIGNERS'', Str ''RETAIL'', Str ''RETAIL'']),
         (''SECTOR'', [Str ''Others'', Str ''BANK'', Str ''OIL'']),
         (''NET R$'', [Num (- 1), Num (5 / 2), Num 1])]\<rparr>"

definition example_mixed_loaded :: dashboard where
  "example_mixed_loaded =
     \<lparr>data = Some example_mixed_canonical,
      net_sector_summary = Some example_mixed_summary,
      daily_evolution =
        Some \<lparr>index = [Stamp 1, Stamp 2],
              columns =
                [(Str ''FOREIGNERS'', [Num 0, Num (- 1)]),
                 (Str ''RETAIL'', [Num 3, Num (1 / 2)])]\<rparr>,
      evol_sector =
        Some \<lparr>index = [Stamp 1, Stamp 2],
              columns =
                [((Str ''FOREIGNERS'', Str ''Others''), [Num 0, Num (- 1)]),
                 ((Str ''RETAIL'', Str ''BANK''), [Num 2, Num (1 / 2)]),
                 ((Str ''RETAIL'', Str ''OIL''), [Num 1, Num 0])]\<rparr>,
      total_net_by_type = Some [(Str ''FOREIGNERS'', Num (- 1)), (Str ''RETAIL'', Num (7 / 2))],
      volume_total_by_type = Some [(Str ''FOREIGNERS'', Num 1), (Str ''RETAIL'', Num (7 / 2))]\<rparr>"

lemma example_mixed_clean:
  "clean_data (\<lambda>c. None) (init\<lparr>data := Some example_mixed_sheet\<rparr>) =
   Done (init\<lparr>data := Some example_mixed_canonical\<rparr>)"
  by code_simp

lemma example_mixed_process:
  "process_data (init\<lparr>data := Some example_mixed_canonical\<rparr>) = Done example_mixed_loaded"
  by code_simp

lemma example_mixed_wellformed: "wellformed (rename example_mixed_sheet column_mapping)"
  by code_simp

text \<open>The theorem at a table where one category trades in two sectors.\<close>

theorem sector_sums_add_up_witness:
  "clean_data (\<lambda>c. None) (init\<lparr>data := Some example_mixed_sheet\<rparr>) =
     Done (init\<lparr>data := Some example_mixed_canonical\<rparr>) \<and>
   process_data (init\<lparr>data := Some example_mixed_canonical\<rparr>) = Done example_mixed_loaded \<and>
   total_net_by_type example_mixed_loaded =
     Some [(Str ''FOREIGNERS'', Num (- 1)), (Str ''RETAIL'', Num (7 / 2))] \<and>
   sum_list (map amount (map snd
     (filter (\<lambda>kx. fst (fst kx) = Str ''RETAIL'') (sector_rows example_mixed_summary)))) = 7 / 2"
proof -
  have a: "data (init\<lparr>data := Some example_mixed_sheet\<rparr>) = Some example_mixed_sheet" by simp
  from sector_sums_add_up[OF example_mixed_clean a example_mixed_wellformed example_mixed_process]
  obtain v t where
    h: "net_sector_summary example_mixed_loaded = Some v"
       "total_net_by_type example_mixed_loaded = Some t"
       "\<forall>cx \<in> set t. snd cx =
         Num (sum_list (map amount (map snd
                (filter (\<lambda>kx. fst (fst kx) = fst cx) (sector_rows v)))))"
    by blast
  from h(1) have v: "v = example_mixed_summary" by (simp add: example_mixed_loaded_def)
  from h(2) have t: "t = [(Str ''FOREIGNERS'', Num (- 1)), (Str ''RETAIL'', Num (7 / 2))]"
    by (simp add: example_mixed_loaded_def)
  have "(Str ''RETAIL'', Num (7 / 2)) \<in> set t" by (simp add: t)
  with h(3) have "snd (Str ''RETAIL'', Num (7 / 2) :: cell) =
      Num (sum_list (map amount (map snd
         (filter (\<lambda>kx. fst (fst kx) = fst (Str ''RETAIL'', Num (7 / 2) :: cell)) (sector_rows v)))))"
    by blast
  then have "sum_list (map amount (map snd
     (filter (\<lambda>kx. fst (fst kx) = Str ''RETAIL'') (sector_rows example_mixed_summary)))) = 7 / 2"
    unfolding v by simp
  with example_mixed_clean example_mixed_process h(2) t show ?thesis by simp
qed

section \<open>Dense evolutions\<close>

lemma kept_keys_image:
  "(\<lambda>kv. f (fst kv)) ` set (filter (\<lambda>kv. P (fst kv)) rows) = f ` {k \<in> set (map fst rows). P k}"
  by force

lemma daily_pivot_columns:
  "daily_pivot df = Inr pv \<Longrightarrow> getitem df ''INV TYPE'' \<noteq> None \<and> getitem df ''NET R$'' \<noteq> None"
  by (auto simp: daily_pivot_def split: option.splits)

lemma sector_pivot_columns:
  "sector_pivot df = Inr pv \<Longrightarrow>
   getitem df ''INV TYPE'' \<noteq> None \<and> getitem df ''SECTOR'' \<noteq> None \<and> getitem df ''NET R$'' \<noteq> None"
  by (auto simp: sector_pivot_def split: option.splits)

lemma daily_dense:
  assumes c: "canonical df" and pv: "daily_pivot df = Inr pv" and d: "dense_of pv = Inr d"
  shows "set (index d) = {dt \<in> set (index df). dt \<noteq> NaN}"
    and "set (map fst (columns d)) =
         {c. \<exists>dt. dt \<noteq> NaN \<and> (dt, c) \<in> set (zip (index df) (col df ''INV TYPE''))}"
proof -
  let ?keys = "zip (index df) (col df ''INV TYPE'')"
  have len: "length (col df ''INV TYPE'') = length (index df)"
    "length (col df ''NET R$'') = length (index df)"
    using daily_pivot_columns[OF pv] canonical_col(2)[OF c] by simp_all
  then have k: "map fst (daily_rows df) = ?keys"
    by (simp add: daily_rows_def)
  have n: "k \<in> set ?keys \<Longrightarrow> notna (snd k)" for k
    using canonical_col(1)[OF c, of "''INV TYPE''"] set_zip_rightD[of "fst k" "snd k"]
    by (auto simp: notna_def)
  have p: "{k \<in> set ?keys. notna (fst k) \<and> notna (snd k)} = {k \<in> set ?keys. fst k \<noteq> NaN}"
    using n by (auto simp: notna_def)
  have i: "fst ` set ?keys = set (index df)"
    using len(1) by (metis map_fst_zip set_map)
  have "set (index d) = fst ` {k \<in> set ?keys. fst k \<noteq> NaN}"
    unfolding pivot_dense(1)[OF daily_pivot_rows[OF pv] d]
    using kept_keys_image[of fst "\<lambda>k. notna (fst k) \<and> notna (snd k)" "daily_rows df"]
    by (simp add: k p)
  also have "\<dots> = {dt \<in> set (index df). dt \<noteq> NaN}"
    unfolding i[symmetric] by force
  finally show "set (index d) = {dt \<in> set (index df). dt \<noteq> NaN}" .
  have "set (map fst (columns d)) = snd ` {k \<in> set ?keys. fst k \<noteq> NaN}"
    unfolding pivot_dense(4)[OF daily_pivot_rows[OF pv] d]
    using kept_keys_image[of snd "\<lambda>k. notna (fst k) \<and> notna (snd k)" "daily_rows df"]
    by (simp add: k p)
  also have "\<dots> = {c. \<exists>dt. dt \<noteq> NaN \<and> (dt, c) \<in> set ?keys}"
    by force
  finally show "set (map fst (columns d)) = {c. \<exists>dt. dt \<noteq> NaN \<and> (dt, c) \<in> set ?keys}" .
qed


lemma sector_dense:
  assumes c: "canonical df" and pv: "sector_pivot df = Inr pv" and d: "dense_of pv = Inr e"
  shows "set (index e) = {dt \<in> set (index df). dt \<noteq> NaN}"
    and "set (map fst (columns e)) =
         {cs. \<exists>dt. dt \<noteq> NaN \<and>
            (dt, cs) \<in> set (zip (index df) (zip (col df ''INV TYPE'') (col df ''SECTOR'')))}"
proof -
  let ?keys = "zip (index df) (zip (col df ''INV TYPE'') (col df ''SECTOR''))"
  have len: "length (col df ''INV TYPE'') = length (index df)"
    "length (col df ''SECTOR'') = length (index df)"
    "length (col df ''NET R$'') = length (index df)"
    using sector_pivot_columns[OF pv] canonical_col(2)[OF c] by simp_all
  then have k: "map fst (evol_rows df) = ?keys"
    by (simp add: evol_rows_def)
  have n: "pair_notna (snd k)" if "k \<in> set ?keys" for k
  proof -
    obtain dt a b where kk: "k = (dt, a, b)" by (cases k) auto
    with that have "(a, b) \<in> set (zip (col df ''INV TYPE'') (col df ''SECTOR''))"
      by (auto dest: set_zip_rightD)
    then have "a \<in> set (col df ''INV TYPE'')" "b \<in> set (col df ''SECTOR'')"
      by (auto dest: set_zip_leftD set_zip_rightD)
    with canonical_col(1)[OF c] have "a \<noteq> NaN" "b \<noteq> NaN" by auto
    then show ?thesis by (simp add: kk pair_notna_def notna_def)
  qed
  have p: "{k \<in> set ?keys. notna (fst k) \<and> pair_notna (snd k)} = {k \<in> set ?keys. fst k \<noteq> NaN}"
    using n by (auto simp: notna_def)
  have "map fst ?keys = index df"
    using len(1,2) by (simp add: map_fst_zip)
  then have i: "fst ` set ?keys = set (index df)"
    by (metis set_map)
  have "set (index e) = fst ` {k \<in> set ?keys. fst k \<noteq> NaN}"
    unfolding pivot_dense(1)[OF sector_pivot_rows[OF pv] d]
    using kept_keys_image[of fst "\<lambda>k. notna (fst k) \<and> pair_notna (snd k)" "evol_rows df"]
    by (simp add: k p)
  also have "\<dots> = {dt \<in> set (index df). dt \<noteq> NaN}"
    unfolding i[symmetric] by force
  finally show "set (index e) = {dt \<in> set (index df). dt \<noteq> NaN}" .
  have "set (map fst (columns e)) = snd ` {k \<in> set ?keys. fst k \<noteq> NaN}"
    unfolding pivot_dense(4)[OF sector_pivot_rows[OF pv] d]
    using kept_keys_image[of snd "\<lambda>k. notna (fst k) \<and> pair_notna (snd k)" "evol_rows df"]
    by (simp add: k p)
  also have "\<dots> = {cs. \<exists>dt. dt \<noteq> NaN \<and> (dt, cs) \<in> set ?keys}"
    by force
  finally show "set (map fst (columns e)) = {cs. \<exists>dt. dt \<noteq> NaN \<and> (dt, cs) \<in> set ?keys}" .
qed

text \<open>
  C3, as the code has it. The pivots group by the date index, and a group key that is
  missing is left out: a row with no trade date is in neither evolution. On the canonical
  table, when \<^verbatim>\<open>_process_data\<close> returns, DailyEvolution has one row for every trade date that
  is present and one column for every category that some dated row has; SectorEvolution
  has the same rows and one column for every (category, sector) pair of a dated row. Every
  column holds one cell for every row of the matrix, the sum in millions of the trades of
  that date and key, and that is 0 where the combination has no trade.
\<close>

theorem evolutions_dense:
  assumes "clean_data conv s0 = Done s" and "data s0 = Some raw"
    and "wellformed (rename raw column_mapping)" and "process_data s = Done s'"
  shows "\<exists>df d e.
      data s = Some df \<and> daily_evolution s' = Some d \<and> evol_sector s' = Some e \<and>
      set (index d) = {dt \<in> set (index df). dt \<noteq> NaN} \<and>
      set (index e) = {dt \<in> set (index df). dt \<noteq> NaN} \<and>
      set (map fst (columns d)) =
        {c. \<exists>dt. dt \<noteq> NaN \<and> (dt, c) \<in> set (zip (index df) (col df ''INV TYPE''))} \<and>
      set (map fst (columns e)) =
        {cs. \<exists>dt. dt \<noteq> NaN \<and>
           (dt, cs) \<in> set (zip (index df) (zip (col df ''INV TYPE'') (col df ''SECTOR'')))} \<and>
      distinct (index d) \<and> distinct (map fst (columns d)) \<and>
      distinct (index e) \<and> distinct (map fst (columns e)) \<and>
      (\<forall>kc \<in> set (columns d).
         snd kc = map (\<lambda>dt. millions (dt, fst kc) (daily_rows df)) (index d)) \<and>
      (\<forall>kc \<in> set (columns e).
         snd kc = map (\<lambda>dt. millions (dt, fst kc) (evol_rows df)) (index e)) \<and>
      (\<forall>k. k \<notin> fst ` set (daily_rows df) \<longrightarrow> millions k (daily_rows df) = Num 0) \<and>
      (\<forall>k. k \<notin> fst ` set (evol_rows df) \<longrightarrow> millions k (evol_rows df) = Num 0)"
proof -
  from clean_data_gives_canonical[OF assms(1,2,3)] obtain df where
    df: "data s = Some df" "canonical df"
    by blast
  from assms(4) df(1) obtain d e pd pe where
    h: "daily_pivot df = Inr pd" "dense_of pd = Inr d"
       "sector_pivot df = Inr pe" "dense_of pe = Inr e"
       "daily_evolution s' = Some d" "evol_sector s' = Some e"
    unfolding process_data_Done by auto
  note pd = pivot_dense[OF daily_pivot_rows[OF h(1)] h(2)]
  note pe = pivot_dense[OF sector_pivot_rows[OF h(3)] h(4)]
  have 1: "\<forall>kc \<in> set (columns d).
         snd kc = map (\<lambda>dt. millions (dt, fst kc) (daily_rows df)) (index d)"
    by (intro ballI pd(7))
  have 2: "\<forall>kc \<in> set (columns e).
         snd kc = map (\<lambda>dt. millions (dt, fst kc) (evol_rows df)) (index e)"
    by (intro ballI pe(7))
  have 3: "\<forall>k. k \<notin> fst ` set (daily_rows df) \<longrightarrow> millions k (daily_rows df) = Num 0"
    "\<forall>k. k \<notin> fst ` set (evol_rows df) \<longrightarrow> millions k (evol_rows df) = Num 0"
    by (simp_all add: millions_empty)
  note dd = daily_dense[OF df(2) h(1,2)]
  note sd = sector_dense[OF df(2) h(3,4)]
  show ?thesis
    apply (rule exI[of _ df], rule exI[of _ d], rule exI[of _ e])
    apply (intro conjI)
                  apply (fact df(1) h(5) h(6) dd(1) sd(1) dd(2) sd(2) pd(2) pd(5) pe(2) pe(5) 1 2 3)+
    done
qed


definition example_daily :: "cell frame" where
  "example_daily =
     \<lparr>index = [Stamp 1, Stamp 2],
      columns =
        [(Str ''FOREIGNERS'', [Num (- 1), Num 0]),
         (Str ''LOCALS'', [Num 0, Num (1 / 2)]),
         (Str ''RETAIL'', [Num 2, Num 0])]\<rparr>"

text \<open>The theorem at the example table: every category has a cell on both days.\<close>

theorem evolutions_dense_witness:
  "clean_data (\<lambda>c. None) (init\<lparr>data := Some example_sheet\<rparr>) =
     Done (init\<lparr>data := Some example_canonical\<rparr>) \<and>
   process_data (init\<lparr>data := Some example_canonical\<rparr>) = Done example_loaded \<and>
   daily_evolution example_loaded = Some example_daily \<and>
   set (index example_daily) = {dt \<in> set (index example_canonical). dt \<noteq> NaN} \<and>
   set (map fst (columns example_daily)) =
     {c. \<exists>dt. dt \<noteq> NaN \<and>
        (dt, c) \<in> set (zip (index example_canonical) (col example_canonical ''INV TYPE''))} \<and>
   getitem example_daily (Str ''RETAIL'') = Some [Num 2, Num 0]"
proof -
  have a: "data (init\<lparr>data := Some example_sheet\<rparr>) = Some example_sheet" by simp
  have l: "daily_evolution example_loaded = Some example_daily"
    by (simp add: example_loaded_def example_daily_def)
  from evolutions_dense[OF example_clean a example_sheet_wellformed example_process]
  obtain df d where
    h: "data (init\<lparr>data := Some example_canonical\<rparr>) = Some df"
       "daily_evolution example_loaded = Some d"
       "set (index d) = {dt \<in> set (index df). dt \<noteq> NaN}"
       "set (map fst (columns d)) =
        {c. \<exists>dt. dt \<noteq> NaN \<and> (dt, c) \<in> set (zip (index df) (col df ''INV TYPE''))}"
    by blast
  from h(1) have df: "df = example_canonical" by simp
  from h(2) l have d: "d = example_daily" by simp
  have g: "getitem example_daily (Str ''RETAIL'') = Some [Num 2, Num 0]"
    by (simp add: getitem_def example_daily_def)
  from h(3,4) show ?thesis
    unfolding df d using example_clean example_process l g by simp
qed

definition example_undated_sheet :: "string frame" where
  "example_undated_sheet =
     \<lparr>index = range_index 2,
      columns =
        [(''DT_NEGOCIO'', [NaN, Stamp 1]),
         (''CD_SETOR'', [Str ''BANK'', Str ''OIL'']),
         (''CONTA'', [Str ''GENIAL'', Str ''LOCAL INSTITUCIONAL'']),
         (''VL_NET'', [Num 5000000, Num 3000000]),
         (''VL_TOTAL'', [Num 5000000, Num 3000000])]\<rparr>"

definition example_undated_canonical :: "string frame" where
  "example_undated_canonical =
     \<lparr>index = [NaN, Stamp 1],
      columns =
        [(''SECTOR'', [Str ''BANK'', Str ''OIL'']),
         (''INV TYPE'', [Str ''RETAIL'', Str ''LOCALS'']),
         (''NET R$'', [Num 5000000, Num 3000000]),
         (''TOTAL'', [Num 5000000, Num 3000000])]\<rparr>"

definition example_undated_daily :: "cell frame" where
  "example_undated_daily = \<lparr>index = [Stamp 1], columns = [(Str ''LOCALS'', [Num 3])]\<rparr>"

definition example_undated_evol :: "(cell \<times> cell) frame" where
  "example_undated_evol =
     \<lparr>index = [Stamp 1], columns = [((Str ''LOCALS'', Str ''OIL''), [Num 3])]\<rparr>"

definition example_undated_loaded :: dashboard where
  "example_undated_loaded =
     \<lparr>data = Some example_undated_canonical,
      net_sector_summary =
        Some \<lparr>index = [Num 0, Num 1],
              columns =
                [(''INV TYPE'', [Str ''LOCALS'', Str ''RETAIL'']),
                 (''SECTOR'', [Str ''OIL'', Str ''BANK'']),
                 (''NET R$'', [Num 3, Num 5])]\<rparr>,
      daily_evolution = Some example_undated_daily,
      evol_sector = Some example_undated_evol,
      total_net_by_type = Some [(Str ''LOCALS'', Num 3), (Str ''RETAIL'', Num 5)],
      volume_total_by_type = Some [(Str ''LOCALS'', Num 3), (Str ''RETAIL'', Num 5)]\<rparr>"

text \<open>
  C3 as stated fails on a sheet whose first row has no trade date: the load succeeds, the
  canonical table has the category RETAIL and the date 1, and neither evolution has a
  cell for them.
\<close>

theorem undated_row_counterexample:
  "load_data (\<lambda>c. None) (Sheet example_undated_sheet) init = (True, example_undated_loaded) \<and>
   data example_undated_loaded = Some example_undated_canonical \<and>
   Str ''RETAIL'' \<in> set (col example_undated_canonical ''INV TYPE'') \<and>
   Stamp 1 \<in> set (index example_undated_canonical) \<and>
   daily_evolution example_undated_loaded = Some example_undated_daily \<and>
   getitem example_undated_daily (Str ''RETAIL'') = None \<and>
   evol_sector example_undated_loaded = Some example_undated_evol \<and>
   getitem example_undated_evol (Str ''RETAIL'', Str ''BANK'') = None"
proof -
  have "load_data (\<lambda>c. None) (Sheet example_undated_sheet) init = (True, example_undated_loaded)"
    by code_simp
  then show ?thesis
    by (simp add: example_undated_loaded_def example_undated_canonical_def
        example_undated_daily_def example_undated_evol_def col_def getitem_def)
qed

section \<open>Empty tables\<close>

lemma select_none: "\<forall>b \<in> set keep. \<not> b \<Longrightarrow> select keep xs = []"
  by (auto simp: select_def filter_empty_conv dest: set_zip_leftD)

lemma groupby_sum_Nil [simp]: "groupby_sum kf pr [] = Inr []"
  by (simp add: groupby_sum_def group_keys_def)

definition empty_summary :: "string frame" where
  "empty_summary =
     \<lparr>index = [], columns = [(''INV TYPE'', []), (''SECTOR'', []), (''NET R$'', [])]\<rparr>"

definition empty_frame :: "'l frame" where
  "empty_frame = \<lparr>index = [], columns = []\<rparr>"

lemma dense_of_empty: "dense_of empty_frame = Inr empty_frame"
  by (simp add: dense_of_def scale_frame_def fillna_def empty_frame_def)

lemma process_empty:
  assumes "data s = Some df" "index df = []"
    "getitem df ''INV TYPE'' = Some []" "getitem df ''SECTOR'' = Some []"
    "getitem df ''NET R$'' = Some []" "getitem df ''TOTAL'' = Some []"
  shows "process_data s =
     Done (s\<lparr>net_sector_summary := Some empty_summary, total_net_by_type := Some [],
              volume_total_by_type := Some [], daily_evolution := Some empty_frame,
              evol_sector := Some empty_frame\<rparr>)"
proof -
  have 1: "summary_of df = Inr empty_summary"
    using assms(3,4,5)
    by (simp add: summary_of_def sector_sums_def scale_column_def range_index_def getitem_def
        setitem_def empty_summary_def)
  have 2: "type_sums ''NET R$'' df = Inr []" "type_sums ''TOTAL'' df = Inr []"
    using assms(3,5,6) by (simp_all add: type_sums_def scale_series_def)
  have 3: "daily_pivot df = Inr empty_frame"
    using assms(2,3,5) by (simp add: daily_pivot_def pivot_sum_def group_keys_def empty_frame_def)
  have 4: "sector_pivot df = Inr empty_frame"
    using assms(2,3,4,5) by (simp add: sector_pivot_def pivot_sum_def group_keys_def empty_frame_def)
  have 5: "\<exists>pv. daily_pivot df = Inr pv \<and> dense_of pv = Inr (empty_frame :: cell frame)"
    using 3 dense_of_empty by blast
  have 6: "\<exists>pv. sector_pivot df = Inr pv \<and> dense_of pv = Inr (empty_frame :: (cell \<times> cell) frame)"
    using 4 dense_of_empty by blast
  show ?thesis
    unfolding process_data_Done
    apply (rule exI[of _ df], rule exI[of _ empty_summary], rule exI[of _ "[]"], rule exI[of _ "[]"],
        rule exI[of _ empty_frame], rule exI[of _ empty_frame])
    apply (intro conjI)
          apply (fact assms(1) 1 2 5 6 refl)+
    done
qed


lemma mask_rows_none:
  assumes "\<forall>b \<in> set keep. \<not> b"
  shows "index (mask_rows df keep) = []"
    and "list_all (\<lambda>kc. snd kc = []) (columns (mask_rows df keep))"
    and "getitem df k = Some cs \<Longrightarrow> getitem (mask_rows df keep) k = Some []"
proof -
  show "index (mask_rows df keep) = []"
    using assms by (simp add: mask_rows_def select_none)
  show "list_all (\<lambda>kc. snd kc = []) (columns (mask_rows df keep))"
    using assms by (simp add: mask_rows_def select_none list_all_iff)
  show "getitem df k = Some cs \<Longrightarrow> getitem (mask_rows df keep) k = Some []"
    using assms by (simp add: getitem_mask_rows select_none)
qed

text \<open>
  C7. On a raw table whose date column converts and which has sector, category, net and
  total columns: when no row has a valid category after the remapping,
  \<^verbatim>\<open>_clean_data\<close> returns, with a table of no rows, and \<^verbatim>\<open>_process_data\<close> on that table
  returns with all five views empty (the sector summary keeps its three column labels).
\<close>

theorem all_rows_dropped:
  assumes "data s = Some raw" and "wellformed (rename raw column_mapping)"
    and "getitem raw ''DT_NEGOCIO'' = Some dt" and "to_datetime conv dt = Inr ds"
    and "getitem (rename raw column_mapping) ''SECTOR'' = Some secs"
    and "getitem (rename raw column_mapping) ''INV TYPE'' = Some conta"
    and "getitem (rename raw column_mapping) ''NET R$'' = Some nets"
    and "getitem (rename raw column_mapping) ''TOTAL'' = Some tots"
    and "\<forall>c \<in> set conta.
           replace1 investor_mapping (fill (Str ''Others'') c) \<notin> set valid_investors"
  shows "\<exists>df.
      clean_data conv s = Done (s\<lparr>data := Some df\<rparr>) \<and>
      index df = [] \<and> list_all (\<lambda>kc. snd kc = []) (columns df) \<and>
      process_data (s\<lparr>data := Some df\<rparr>) =
        Done (s\<lparr>data := Some df, net_sector_summary := Some empty_summary,
                 total_net_by_type := Some [], volume_total_by_type := Some [],
                 daily_evolution := Some empty_frame, evol_sector := Some empty_frame\<rparr>)"
proof -
  let ?p = "prepared raw ds"
  let ?secs = "map (fill (Str ''Others'')) secs"
  let ?invs = "map (fill (Str ''Others'')) conta"
  let ?keep = "isin (replace investor_mapping ?invs) valid_investors"
  let ?r = "remapped ?p ?secs ?invs"
  let ?out = "mask_rows ?r ?keep"
  have ps: "getitem ?p ''SECTOR'' = Some ?secs"
    using assms(5) by (simp add: prepared_def getitem_fillna getitem_rename_drop_date)
  have pi: "getitem ?p ''INV TYPE'' = Some ?invs"
    using assms(6) by (simp add: prepared_def getitem_fillna getitem_rename_drop_date)
  have "clean_frame conv raw = Inr ?out"
    unfolding clean_frame_Inr using assms(3,4) ps pi by blast
  then have 1: "clean_data conv s = Done (s\<lparr>data := Some ?out\<rparr>)"
    unfolding clean_data_Done using assms(1) by blast
  have none: "\<forall>b \<in> set ?keep. \<not> b"
    using assms(9) by (auto simp: isin_def replace_def)
  have r: "getitem ?r ''INV TYPE'' \<noteq> None" "getitem ?r ''SECTOR'' \<noteq> None"
    "getitem ?r ''NET R$'' \<noteq> None" "getitem ?r ''TOTAL'' \<noteq> None"
    using assms(7,8)
    by (simp_all add: remapped_def getitem_setitem prepared_def getitem_fillna
        getitem_rename_drop_date)
  then have g: "getitem ?out ''INV TYPE'' = Some []" "getitem ?out ''SECTOR'' = Some []"
    "getitem ?out ''NET R$'' = Some []" "getitem ?out ''TOTAL'' = Some []"
    using mask_rows_none(3)[OF none] by auto
  have d: "data (s\<lparr>data := Some ?out\<rparr>) = Some ?out" by simp
  from process_empty[OF d mask_rows_none(1)[OF none] g]
  have 2: "process_data (s\<lparr>data := Some ?out\<rparr>) =
        Done (s\<lparr>data := Some ?out, net_sector_summary := Some empty_summary,
                 total_net_by_type := Some [], volume_total_by_type := Some [],
                 daily_evolution := Some empty_frame, evol_sector := Some empty_frame\<rparr>)"
    by simp
  show ?thesis
    apply (rule exI[of _ ?out])
    apply (intro conjI)
       apply (fact 1 2 mask_rows_none(1)[OF none] mask_rows_none(2)[OF none])+
    done
qed

definition example_desk_sheet :: "string frame" where
  "example_desk_sheet =
     \<lparr>index = range_index 2,
      columns =
        [(''DT_NEGOCIO'', [Stamp 1, Stamp 2]),
         (''CD_SETOR'', [Str ''BANK'', Str ''OIL'']),
         (''CONTA'', [Str ''UNKNOWN_DESK'', NaN]),
         (''VL_NET'', [Num 5000000, Num 3000000]),
         (''VL_TOTAL'', [Num 5000000, Num 3000000])]\<rparr>"

definition example_desk_canonical :: "string frame" where
  "example_desk_canonical =
     \<lparr>index = [],
      columns = [(''SECTOR'', []), (''INV TYPE'', []), (''NET R$'', []), (''TOTAL'', [])]\<rparr>"


lemma example_desk_clean:
  "clean_data (\<lambda>c. None) (init\<lparr>data := Some example_desk_sheet\<rparr>) =
   Done (init\<lparr>data := Some example_desk_canonical\<rparr>)"
  by code_simp

text \<open>The theorem at a sheet of two rows, one of an unknown desk and one with no account.\<close>

theorem all_rows_dropped_witness:
  "clean_data (\<lambda>c. None) (init\<lparr>data := Some example_desk_sheet\<rparr>) =
     Done (init\<lparr>data := Some example_desk_canonical\<rparr>) \<and>
   process_data (init\<lparr>data := Some example_desk_canonical\<rparr>) =
     Done (init\<lparr>data := Some example_desk_canonical, net_sector_summary := Some empty_summary,
              total_net_by_type := Some [], volume_total_by_type := Some [],
              daily_evolution := Some empty_frame, evol_sector := Some empty_frame\<rparr>)"
proof -
  let ?s = "init\<lparr>data := Some example_desk_sheet\<rparr>"
  let ?r = "rename example_desk_sheet column_mapping"
  have a: "data ?s = Some example_desk_sheet" by simp
  have w: "wellformed ?r" by code_simp
  have dt: "getitem example_desk_sheet ''DT_NEGOCIO'' = Some [Stamp 1, Stamp 2]" by code_simp
  have ds: "to_datetime (\<lambda>c. None) [Stamp 1, Stamp 2] = Inr [Stamp 1, Stamp 2]" by code_simp
  have sc: "getitem ?r ''SECTOR'' = Some [Str ''BANK'', Str ''OIL'']" by code_simp
  have ct: "getitem ?r ''INV TYPE'' = Some [Str ''UNKNOWN_DESK'', NaN]" by code_simp
  have nt: "getitem ?r ''NET R$'' = Some [Num 5000000, Num 3000000]" by code_simp
  have tt: "getitem ?r ''TOTAL'' = Some [Num 5000000, Num 3000000]" by code_simp
  have nv: "\<forall>c \<in> set [Str ''UNKNOWN_DESK'', NaN].
           replace1 investor_mapping (fill (Str ''Others'') c) \<notin> set valid_investors"
    by (simp add: replace1_def investor_mapping_def fill_def valid_investors_def)
  from all_rows_dropped[OF a w dt ds sc ct nt tt nv] obtain df where
    h: "clean_data (\<lambda>c. None) ?s = Done (?s\<lparr>data := Some df\<rparr>)"
       "process_data (?s\<lparr>data := Some df\<rparr>) =
        Done (?s\<lparr>data := Some df, net_sector_summary := Some empty_summary,
                 total_net_by_type := Some [], volume_total_by_type := Some [],
                 daily_evolution := Some empty_frame, evol_sector := Some empty_frame\<rparr>)"
    by blast
  from h(1) have "data (?s\<lparr>data := Some df\<rparr>) = data (init\<lparr>data := Some example_desk_canonical\<rparr>)"
    unfolding example_desk_clean by simp
  then have "df = example_desk_canonical" by simp
  with h(2) example_desk_clean show ?thesis by simp
qed

section \<open>What a load leaves behind\<close>





lemma load_data_cases:
  "load_data conv x s =
     (case read_excel x of
        Inl e \<Rightarrow> (False, s)
      | Inr raw \<Rightarrow>
          (case clean_data conv (s\<lparr>data := Some raw\<rparr>) of
             Raised e s1 \<Rightarrow> (False, s1)
           | Done s1 \<Rightarrow>
               (case process_data s1 of Raised e s2 \<Rightarrow> (False, s2) | Done s2 \<Rightarrow> (True, s2))))"
  by (simp add: load_data_def assign_def split: sum.splits outcome.splits)


lemma assign_atomic: "assign rhs store s = Raised e s1 \<Longrightarrow> s1 = s"
  by (auto simp: assign_def split: sum.splits)

lemma run_Raised:
  assumes "\<forall>f \<in> set fs. \<forall>s e s1. f s = Raised e s1 \<longrightarrow> s1 = s"
    and "run fs s = Raised e s'"
  shows "\<exists>pre f post. fs = pre @ f # post \<and> run pre s = Done s' \<and> f s' = Raised e s'"
  using assms
proof (induction fs arbitrary: s)
  case Nil
  then show ?case by simp
next
  case (Cons f fs)
  show ?case
  proof (cases "f s")
    case (Raised e1 s1)
    with Cons.prems(2) have "e1 = e" "s1 = s'" by simp_all
    moreover from Cons.prems(1) Raised have "s1 = s" by simp
    ultimately have "f # fs = [] @ f # fs \<and> run [] s = Done s' \<and> f s' = Raised e s'"
      using Raised by simp
    then show ?thesis by blast
  next
    case (Done s1)
    with Cons.prems(2) have r: "run fs s1 = Raised e s'" by simp
    have a: "\<forall>f \<in> set fs. \<forall>s e s1. f s = Raised e s1 \<longrightarrow> s1 = s"
      using Cons.prems(1) by simp
    from Cons.IH[OF a r] obtain pre g post where
      "fs = pre @ g # post" "run pre s1 = Done s'" "g s' = Raised e s'"
      by blast
    with Done have "f # fs = (f # pre) @ g # post \<and> run (f # pre) s = Done s' \<and> g s' = Raised e s'"
      by simp
    then show ?thesis by blast
  qed
qed

lemma process_statements_atomic:
  "f \<in> set process_statements \<Longrightarrow> f s = Raised e s1 \<Longrightarrow> s1 = s"
  by (auto simp: process_statements_def dest: assign_atomic)

lemma process_data_Raised:
  assumes "process_data s = Raised e s'"
  shows "\<exists>pre f post. process_statements = pre @ f # post \<and> run pre s = Done s' \<and>
           f s' = Raised e s'"
proof -
  have "\<forall>f \<in> set process_statements. \<forall>s e s1. f s = Raised e s1 \<longrightarrow> s1 = s"
    using process_statements_atomic by blast
  then show ?thesis
    using assms unfolding process_data_def by (rule run_Raised)
qed

















section \<open>Top and bottom sectors\<close>

text \<open>
  What \<^verbatim>\<open>get_top_bottom_sectors\<close> needs of the library's argsort: on a column of numbers it
  returns the positions of the column in an order that makes the numbers descend. Nothing
  is asked about ties, nor about columns that hold anything else.
\<close>

definition descending_argsort :: "(cell list \<Rightarrow> pyerror + nat list) \<Rightarrow> bool" where
  "descending_argsort argsort \<longleftrightarrow>
     (\<forall>vs. list_all numeric vs \<longrightarrow>
        (\<exists>ps. argsort vs = Inr ps \<and> mset ps = mset [0..<length vs] \<and>
              sorted_wrt (\<lambda>x y. x \<ge> y) (map (\<lambda>p. amount (vs ! p)) ps)))"

text \<open>One such argsort: the stable one, which leaves ties in the order of the column.\<close>

definition stable_argsort :: "cell list \<Rightarrow> pyerror + nat list" where
  "stable_argsort vs =
     (if list_all numeric vs
      then Inr (map snd (sort_key (\<lambda>vi. - fst vi) (zip (map amount vs) [0..<length vs])))
      else Inl TypeError)"

text \<open>A frame with the three columns of the sector summary.\<close>

definition three :: "cell list \<Rightarrow> cell list \<Rightarrow> cell list \<Rightarrow> cell list \<Rightarrow> string frame" where
  "three idx a b c =
     \<lparr>index = idx, columns = [(''INV TYPE'', a), (''SECTOR'', b), (''NET R$'', c)]\<rparr>"

lemma sorted_wrt_map_neg:
  "sorted (map (\<lambda>z. - f z) zs) \<Longrightarrow> sorted_wrt (\<lambda>x y. x \<ge> y) (map f (zs :: 'a list) :: rat list)"
  by (induction zs) (auto simp: sorted_wrt_map)

lemma stable_argsort_descending: "descending_argsort stable_argsort"
  unfolding descending_argsort_def
proof (intro allI impI)
  fix vs assume n: "list_all numeric vs"
  let ?zs = "zip (map amount vs) [0..<length vs]"
  let ?szs = "sort_key (\<lambda>vi. - fst vi) ?zs"
  have 1: "stable_argsort vs = Inr (map snd ?szs)"
    using n by (simp add: stable_argsort_def)
  have a: "mset (map snd ?szs) = mset (map snd ?zs)"
    by (simp only: mset_map mset_sort)
  have b: "map snd ?zs = [0..<length vs]"
    by simp
  have 2: "mset (map snd ?szs) = mset [0..<length vs]"
    using a unfolding b .
  have "z \<in> set ?zs \<Longrightarrow> amount (vs ! snd z) = fst z" for z
    by (auto simp: in_set_zip)
  then have "map (\<lambda>p. amount (vs ! p)) (map snd ?szs) = map fst ?szs"
    unfolding map_map by (intro map_cong refl) simp
  moreover have "sorted_wrt (\<lambda>x y. x \<ge> y) (map fst ?szs)"
    by (rule sorted_wrt_map_neg) simp
  ultimately have 3: "sorted_wrt (\<lambda>x y. x \<ge> y) (map (\<lambda>p. amount (vs ! p)) (map snd ?szs))"
    by (simp only:)
  from 1 2 3 show "\<exists>ps. stable_argsort vs = Inr ps \<and> mset ps = mset [0..<length vs] \<and>
              sorted_wrt (\<lambda>x y. x \<ge> y) (map (\<lambda>p. amount (vs ! p)) ps)"
    by blast
qed


lemma sector_rows_three [simp]: "sector_rows (three i a b c) = zip (zip a b) c"
  by (simp add: sector_rows_def col_def getitem_def three_def)

lemma getitem_three [simp]:
  "getitem (three i a b c) ''INV TYPE'' = Some a" "getitem (three i a b c) ''NET R$'' = Some c"
  by (simp_all add: getitem_def three_def)

lemma mask_rows_three:
  "mask_rows (three i a b c) m = three (select m i) (select m a) (select m b) (select m c)"
  by (simp add: mask_rows_def three_def)

lemma take_rows_three:
  "take_rows (three i a b c) ps =
   three (map (nth i) ps) (map (nth a) ps) (map (nth b) ps) (map (nth c) ps)"
  by (simp add: take_rows_def three_def)

lemma head_rows_three: "head_rows n (three i a b c) = three (head n i) (head n a) (head n b) (head n c)"
  by (simp add: head_rows_def three_def)

lemma tail_rows_three: "tail_rows n (three i a b c) = three (tail n i) (tail n a) (tail n b) (tail n c)"
  by (simp add: tail_rows_def three_def)

lemma select_zip: "select m (zip xs ys) = zip (select m xs) (select m ys)"
proof (induction m arbitrary: xs ys)
  case Nil
  then show ?case by (simp add: select_def)
next
  case (Cons b m)
  show ?case
  proof (cases xs)
    case Nil
    then show ?thesis by (simp add: select_def)
  next
    case xs: (Cons x xs')
    show ?thesis
    proof (cases ys)
      case Nil
      then show ?thesis by (simp add: select_def)
    next
      case (Cons y ys')
      with xs Cons.IH[of xs' ys'] show ?thesis by (simp add: select_def)
    qed
  qed
qed

lemma select_map_key:
  "select (map P a) (zip (zip a b) c) = filter (\<lambda>kx. P (fst (fst kx))) (zip (zip a b) c)"
proof (induction a arbitrary: b c)
  case Nil
  then show ?case by (simp add: select_def)
next
  case (Cons x a)
  show ?case
  proof (cases b)
    case Nil
    then show ?thesis by (simp add: select_def)
  next
    case b: (Cons y b')
    show ?thesis
    proof (cases c)
      case Nil
      then show ?thesis by (simp add: select_def)
    next
      case (Cons z c')
      with b Cons.IH[of b' c'] show ?thesis by (simp add: select_def)
    qed
  qed
qed

lemma map_nth_zip3:
  assumes "\<forall>p \<in> set ps. p < length c" "length a = length c" "length b = length c"
  shows "zip (zip (map (nth a) ps) (map (nth b) ps)) (map (nth c) ps) =
         map (nth (zip (zip a b) c)) ps"
  using assms(1)
proof (induction ps)
  case Nil
  then show ?case by simp
next
  case (Cons p ps)
  then show ?case using assms(2,3) by simp
qed

lemma mset_map_nth:
  assumes "mset ps = mset [0..<length xs]"
  shows "mset (map (nth xs) ps) = mset xs"
proof -
  have "mset (map (nth xs) ps) = image_mset (nth xs) (mset ps)" by simp
  also have "\<dots> = image_mset (nth xs) (mset [0..<length xs])" by (simp only: assms)
  also have "\<dots> = mset (map (nth xs) [0..<length xs])" by (simp only: mset_map)
  also have "\<dots> = mset xs" by (simp only: map_nth)
  finally show ?thesis .
qed

lemma head_pos: "0 < n \<Longrightarrow> head n xs = take (nat n) xs"
  by (simp add: head_def)

lemma tail_pos: "0 < n \<Longrightarrow> tail n xs = drop (length xs - nat n) xs"
  by (simp add: tail_def)


lemma select_numeric: "list_all numeric c \<Longrightarrow> list_all numeric (select m c)"
  using set_select[of m c] by (auto simp: list_all_iff)

lemma three_top_bottom:
  assumes srt: "descending_argsort argsort"
    and v: "net_sector_summary self = Some (three i a b c)"
    and len: "length a = length c" "length b = length c"
    and num: "list_all numeric c" and n: "0 < n"
  shows "\<exists>top bottom srt.
      get_top_bottom_sectors argsort self c0 n = Inr (top, bottom) \<and>
      mset srt = mset (filter (\<lambda>kx. fst (fst kx) = c0 \<and> c0 \<noteq> NaN) (zip (zip a b) c)) \<and>
      sorted_wrt (\<lambda>x y. amount (snd x) \<ge> amount (snd y)) srt \<and>
      sector_rows top = take (nat n) srt \<and>
      sector_rows bottom = drop (length srt - nat n) srt"
proof -
  let ?m = "eq_mask a c0"
  let ?fa = "select ?m a" and ?fb = "select ?m b" and ?fc = "select ?m c"
  let ?rows = "zip (zip ?fa ?fb) ?fc"
  have flen: "length ?fa = length ?fc" "length ?fb = length ?fc"
    by (rule length_select, rule len)+
  from srt select_numeric[OF num, of ?m] obtain ps where
    ps: "argsort ?fc = Inr ps" "mset ps = mset [0..<length ?fc]"
        "sorted_wrt (\<lambda>x y. x \<ge> y) (map (\<lambda>p. amount (?fc ! p)) ps)"
    unfolding descending_argsort_def by blast
  have bound: "\<forall>p \<in> set ps. p < length ?fc"
    using mset_eq_setD[OF ps(2)] by simp
  let ?srt = "map (nth ?rows) ps"
  let ?sorted = "three (map (nth (select ?m i)) ps) (map (nth ?fa) ps) (map (nth ?fb) ps)
                   (map (nth ?fc) ps)"
  have sorted_rows: "sector_rows ?sorted = ?srt"
    using map_nth_zip3[OF bound flen] by simp
  have sv: "sort_values argsort (mask_rows (three i a b c) ?m) ''NET R$'' KeyError = Inr ?sorted"
    by (simp add: sort_values_def mask_rows_three ps(1) take_rows_three)
  have 1: "get_top_bottom_sectors argsort self c0 n =
      Inr (head_rows n ?sorted, tail_rows n ?sorted)"
    by (simp add: get_top_bottom_sectors_def attr_def v sv)
  have rl: "length ?rows = length ?fc"
    using flen by simp
  have m: "mset ?srt = mset ?rows"
    using ps(2) unfolding rl[symmetric] by (rule mset_map_nth)
  have "?rows = select ?m (zip (zip a b) c)"
    by (simp add: select_zip)
  also have "\<dots> = filter (\<lambda>kx. fst (fst kx) = c0 \<and> fst (fst kx) \<noteq> NaN) (zip (zip a b) c)"
    unfolding eq_mask_def by (rule select_map_key)
  also have "\<dots> = filter (\<lambda>kx. fst (fst kx) = c0 \<and> c0 \<noteq> NaN) (zip (zip a b) c)"
    by (rule filter_cong) auto
  finally have r: "?rows = filter (\<lambda>kx. fst (fst kx) = c0 \<and> c0 \<noteq> NaN) (zip (zip a b) c)" .
  have 2: "mset ?srt =
      mset (filter (\<lambda>kx. fst (fst kx) = c0 \<and> c0 \<noteq> NaN) (zip (zip a b) c))"
    unfolding r[symmetric] by (rule m)
  have "map (\<lambda>x. amount (snd x)) ?srt = map (\<lambda>p. amount (?fc ! p)) ps"
    unfolding map_map using bound flen by (intro map_cong refl) simp
  then have 3: "sorted_wrt (\<lambda>x y. amount (snd x) \<ge> amount (snd y)) ?srt"
    using ps(3) by (simp only: sorted_wrt_map[symmetric, of "\<lambda>x y. x \<ge> y" "\<lambda>x. amount (snd x)"])
  have 4: "sector_rows (head_rows n ?sorted) = take (nat n) ?srt"
    unfolding sorted_rows[symmetric]
    by (simp add: head_rows_three head_pos[OF n] take_zip)
  have 5: "sector_rows (tail_rows n ?sorted) = drop (length ?srt - nat n) ?srt"
    unfolding sorted_rows[symmetric]
    by (simp add: tail_rows_three tail_pos[OF n] drop_zip)
  show ?thesis
    apply (rule exI[of _ "head_rows n ?sorted"], rule exI[of _ "tail_rows n ?sorted"],
        rule exI[of _ ?srt])
    apply (intro conjI)
        apply (fact 1 2 3 4 5)+
    done
qed


lemma snd_in_zip: "kx \<in> set (zip xs ys) \<Longrightarrow> snd kx \<in> set ys"
  by (cases kx) (auto dest: set_zip_rightD)

lemma summary_three:
  assumes "summary_of df = Inr v"
  shows "\<exists>i a b c. v = three i a b c \<and> length a = length c \<and> length b = length c \<and>
      list_all numeric c \<and> list_all (\<lambda>kx. fst (fst kx) \<noteq> NaN) (sector_rows v)"
proof -
  from summary_of_Inr[OF assms] obtain g where
    g: "groupby_sum pair_key pair_notna (sector_rows df) = Inr g"
       "list_all2 (\<lambda>kv kx. fst kx = fst kv \<and> scale (snd kv) = Inr (snd kx)) g (sector_rows v)"
       "map fst (columns v) = [''INV TYPE'', ''SECTOR'', ''NET R$'']"
       "list_all (\<lambda>kc. length (snd kc) = length g) (columns v)"
    by (elim exE conjE) (rule that)
  from g(3) obtain a b c where
    cols: "columns v = [(''INV TYPE'', a), (''SECTOR'', b), (''NET R$'', c)]"
    by (auto simp: map_eq_Cons_conv)
  have v: "v = three (index v) a b c"
    by (simp add: three_def cols[symmetric])
  from g(4) have len: "length a = length c" "length b = length c"
    by (simp_all add: cols)
  have rows: "sector_rows v = zip (zip a b) c"
    by (subst v) simp
  have "numeric x" if "x \<in> set c" for x
  proof -
    from that len have "x \<in> snd ` set (sector_rows v)"
      by (simp add: rows set_map[symmetric] del: set_map)
    then obtain kx where kx: "kx \<in> set (sector_rows v)" "x = snd kx"
      by (rule imageE)
    from scaled_groups(2)[OF g(1,2) kx(1)] kx(2) show ?thesis
      by (simp add: millions_def)
  qed
  then have num: "list_all numeric c"
    by (simp add: list_all_iff)
  have "fst (fst kx) \<noteq> NaN" if "kx \<in> set (sector_rows v)" for kx
    using scaled_groups(4)[OF g(1,2) that] by (simp add: pair_notna_def notna_def)
  then have nan: "list_all (\<lambda>kx. fst (fst kx) \<noteq> NaN) (sector_rows v)"
    by (simp add: list_all_iff)
  show ?thesis
    apply (rule exI[of _ "index v"], rule exI[of _ a], rule exI[of _ b], rule exI[of _ c])
    apply (intro conjI)
        apply (fact v len num nan)+
    done
qed

lemma fst_in_zip: "kx \<in> set (zip xs ys) \<Longrightarrow> fst kx \<in> set xs"
  by (cases kx) (auto dest: set_zip_leftD)

lemma process_data_summary:
  assumes "process_data s0 = Done self"
  shows "\<exists>v cats secs nets.
      net_sector_summary self = Some v \<and>
      columns v = [(''INV TYPE'', cats), (''SECTOR'', secs), (''NET R$'', nets)] \<and>
      length cats = length nets \<and> length secs = length nets \<and>
      list_all numeric nets \<and> NaN \<notin> set cats"
proof -
  from assms obtain df v where
    v: "summary_of df = Inr v" "net_sector_summary self = Some v"
    unfolding process_data_Done by auto
  from summary_three[OF v(1)] obtain i a b cs where
    t: "v = three i a b cs" "length a = length cs" "length b = length cs"
       "list_all numeric cs" "list_all (\<lambda>kx. fst (fst kx) \<noteq> NaN) (sector_rows v)"
    by (elim exE conjE) (rule that)
  have c: "columns v = [(''INV TYPE'', a), (''SECTOR'', b), (''NET R$'', cs)]"
    by (simp add: t(1) three_def)
  have n: "NaN \<notin> set a"
  proof
    assume "NaN \<in> set a"
    then obtain j where j: "j < length a" "a ! j = NaN"
      by (auto simp: in_set_conv_nth)
    let ?kx = "zip (zip a b) cs ! j"
    from j(1) t(2,3) have "j < length (zip (zip a b) cs)"
      by simp
    then have "?kx \<in> set (zip (zip a b) cs)"
      by (rule nth_mem)
    moreover from j(1) t(2,3) have "fst (fst ?kx) = a ! j"
      by simp
    ultimately have "?kx \<in> set (zip (zip a b) cs)" "fst (fst ?kx) = a ! j" .
    with t(5) j(2) show False
      unfolding t(1) sector_rows_three list_all_iff by auto
  qed
  show ?thesis
    apply (rule exI[of _ v], rule exI[of _ a], rule exI[of _ b], rule exI[of _ cs])
    apply (intro conjI)
         apply (fact v(2) c t(2) t(3) t(4) n)+
    done
qed

text \<open>
  C4. Take any sector summary: a table of the three columns category, sector and net
  amount, of one length, with numbers as amounts and no missing category, as every summary
  that \<^verbatim>\<open>_process_data\<close> installs is. With a library argsort that sorts numbers in
  descending order, \<^verbatim>\<open>get_top_bottom_sectors(c, n)\<close> with a positive \<open>n\<close> returns two
  tables. There is one descending-by-net-amount arrangement \<open>srt\<close> of the summary's
  entries of category \<open>c\<close> such that the first table holds the first \<open>n\<close> entries of \<open>srt\<close>
  and the second its last \<open>n\<close> entries, in the order of \<open>srt\<close>. The first table has
  \<open>min n (length srt)\<close> entries. When the category has at most \<open>n\<close> sectors both tables
  are \<open>srt\<close>, and when it has none both are empty.
\<close>

theorem ranked_sectors:
  assumes "descending_argsort argsort" and "net_sector_summary self = Some v"
    and "columns v = [(''INV TYPE'', cats), (''SECTOR'', secs), (''NET R$'', nets)]"
    and "length cats = length nets" and "length secs = length nets"
    and "list_all numeric nets" and "NaN \<notin> set cats" and "0 < n"
  shows "\<exists>top bottom srt.
      get_top_bottom_sectors argsort self c n = Inr (top, bottom) \<and>
      mset srt = mset (filter (\<lambda>kx. fst (fst kx) = c) (sector_rows v)) \<and>
      list_all (\<lambda>kx. numeric (snd kx)) srt \<and>
      sorted_wrt (\<lambda>x y. amount (snd x) \<ge> amount (snd y)) srt \<and>
      sector_rows top = take (nat n) srt \<and>
      sector_rows bottom = drop (length srt - nat n) srt \<and>
      length (sector_rows top) = min (nat n) (length srt) \<and>
      (length srt \<le> nat n \<longrightarrow> sector_rows top = srt \<and> sector_rows bottom = srt) \<and>
      (filter (\<lambda>kx. fst (fst kx) = c) (sector_rows v) = [] \<longrightarrow>
         sector_rows top = [] \<and> sector_rows bottom = [])"
proof -
  have t: "v = three (index v) cats secs nets"
    by (simp add: three_def assms(3)[symmetric])
  have s: "net_sector_summary self = Some (three (index v) cats secs nets)"
    using assms(2) by (simp add: three_def assms(3)[symmetric])
  from three_top_bottom[OF assms(1) s assms(4,5,6,8), of c]
  obtain top bottom srt where
    r: "get_top_bottom_sectors argsort self c n = Inr (top, bottom)"
       "mset srt = mset (filter (\<lambda>kx. fst (fst kx) = c \<and> c \<noteq> NaN) (zip (zip cats secs) nets))"
       "sorted_wrt (\<lambda>x y. amount (snd x) \<ge> amount (snd y)) srt"
       "sector_rows top = take (nat n) srt"
       "sector_rows bottom = drop (length srt - nat n) srt"
    by (elim exE conjE) (rule that)
  have rows: "sector_rows v = zip (zip cats secs) nets"
    by (subst t) simp
  have "fst (fst kx) \<noteq> NaN" if "kx \<in> set (zip (zip cats secs) nets)" for kx
  proof -
    from that have "fst kx \<in> set (zip cats secs)"
      by (rule fst_in_zip)
    then have "fst (fst kx) \<in> set cats"
      by (rule fst_in_zip)
    with assms(7) show ?thesis by auto
  qed
  then have "filter (\<lambda>kx. fst (fst kx) = c \<and> c \<noteq> NaN) (zip (zip cats secs) nets) =
      filter (\<lambda>kx. fst (fst kx) = c) (zip (zip cats secs) nets)"
    by (intro filter_cong refl) auto
  with r(2) have 3: "mset srt = mset (filter (\<lambda>kx. fst (fst kx) = c) (sector_rows v))"
    by (simp only: rows)
  have sub: "set srt = set (filter (\<lambda>kx. fst (fst kx) = c) (sector_rows v))"
    by (rule mset_eq_setD[OF 3])
  have 4: "list_all (\<lambda>kx. numeric (snd kx)) srt"
    unfolding list_all_iff
  proof (intro ballI)
    fix kx assume "kx \<in> set srt"
    then have "kx \<in> set (zip (zip cats secs) nets)"
      unfolding sub rows by simp
    then have "snd kx \<in> set nets"
      by (rule snd_in_zip)
    with assms(6) show "numeric (snd kx)"
      by (simp add: list_all_iff)
  qed
  have 8: "length (sector_rows top) = min (nat n) (length srt)"
    by (simp add: r(4))
  have 9: "length srt \<le> nat n \<longrightarrow> sector_rows top = srt \<and> sector_rows bottom = srt"
    by (simp add: r(4,5))
  have 10: "filter (\<lambda>kx. fst (fst kx) = c) (sector_rows v) = [] \<longrightarrow>
         sector_rows top = [] \<and> sector_rows bottom = []"
  proof
    assume "filter (\<lambda>kx. fst (fst kx) = c) (sector_rows v) = []"
    with 3 have "srt = []" by simp
    then show "sector_rows top = [] \<and> sector_rows bottom = []"
      by (simp add: r(4,5))
  qed
  show ?thesis
    apply (rule exI[of _ top], rule exI[of _ bottom], rule exI[of _ srt])
    apply (intro conjI)
            apply (fact r(1) 3 4 r(3) r(4) r(5) 8 9 10)+
    done
qed

text \<open>
  The theorem at the table where \<open>RETAIL\<close> trades in two sectors, with the stable argsort:
  one sector asked for, more sectors asked for than there are, and a category that is not
  in the summary.
\<close>

definition example_bank :: "string frame" where
  "example_bank =
     \<lparr>index = [Num 1],
      columns = [(''INV TYPE'', [Str ''RETAIL'']), (''SECTOR'', [Str ''BANK'']),
                 (''NET R$'', [Num (5 / 2)])]\<rparr>"

definition example_oil :: "string frame" where
  "example_oil =
     \<lparr>index = [Num 2],
      columns = [(''INV TYPE'', [Str ''RETAIL'']), (''SECTOR'', [Str ''OIL'']),
                 (''NET R$'', [Num 1])]\<rparr>"

definition example_retail :: "string frame" where
  "example_retail =
     \<lparr>index = [Num 1, Num 2],
      columns = [(''INV TYPE'', [Str ''RETAIL'', Str ''RETAIL'']),
                 (''SECTOR'', [Str ''BANK'', Str ''OIL'']),
                 (''NET R$'', [Num (5 / 2), Num 1])]\<rparr>"

definition example_nobody :: "string frame" where
  "example_nobody =
     \<lparr>index = [], columns = [(''INV TYPE'', []), (''SECTOR'', []), (''NET R$'', [])]\<rparr>"

lemma example_top_one:
  "get_top_bottom_sectors stable_argsort example_mixed_loaded (Str ''RETAIL'') 1 =
     Inr (example_bank, example_oil)"
  by code_simp

lemma example_top_three:
  "get_top_bottom_sectors stable_argsort example_mixed_loaded (Str ''RETAIL'') 3 =
     Inr (example_retail, example_retail)"
  by code_simp

lemma example_top_nobody:
  "get_top_bottom_sectors stable_argsort example_mixed_loaded (Str ''NOBODY'') 3 =
     Inr (example_nobody, example_nobody)"
  by code_simp

lemma example_retail_rows:
  "filter (\<lambda>kx. fst (fst kx) = Str ''RETAIL'') (sector_rows example_mixed_summary) =
     [((Str ''RETAIL'', Str ''BANK''), Num (5 / 2)), ((Str ''RETAIL'', Str ''OIL''), Num 1)]"
  by code_simp

lemma example_nobody_rows:
  "filter (\<lambda>kx. fst (fst kx) = Str ''NOBODY'') (sector_rows example_mixed_summary) = []"
  by code_simp

lemma example_mixed_summary_loaded:
  "net_sector_summary example_mixed_loaded = Some example_mixed_summary"
  by (simp add: example_mixed_loaded_def)

theorem ranked_sectors_witness:
  "descending_argsort stable_argsort \<and>
   process_data (init\<lparr>data := Some example_mixed_canonical\<rparr>) = Done example_mixed_loaded \<and>
   (\<exists>srt. get_top_bottom_sectors stable_argsort example_mixed_loaded (Str ''RETAIL'') 1 =
             Inr (example_bank, example_oil) \<and>
          mset srt = mset [((Str ''RETAIL'', Str ''BANK''), Num (5 / 2)),
                           ((Str ''RETAIL'', Str ''OIL''), Num 1)] \<and>
          sorted_wrt (\<lambda>x y. amount (snd x) \<ge> amount (snd y)) srt \<and>
          sector_rows example_bank = take 1 srt \<and>
          sector_rows example_oil = drop (length srt - 1) srt \<and>
          length (sector_rows example_bank) = min 1 (length srt)) \<and>
   (\<exists>srt. get_top_bottom_sectors stable_argsort example_mixed_loaded (Str ''RETAIL'') 3 =
             Inr (example_retail, example_retail) \<and>
          length srt = 2 \<and> sector_rows example_retail = srt) \<and>
   get_top_bottom_sectors stable_argsort example_mixed_loaded (Str ''NOBODY'') 3 =
     Inr (example_nobody, example_nobody) \<and>
   sector_rows example_nobody = []"
proof -
  have cols: "columns example_mixed_summary =
      [(''INV TYPE'', [Str ''FOREIGNERS'', Str ''RETAIL'', Str ''RETAIL'']),
       (''SECTOR'', [Str ''Others'', Str ''BANK'', Str ''OIL'']),
       (''NET R$'', [Num (- 1), Num (5 / 2), Num 1])]"
    by (simp add: example_mixed_summary_def)
  have len: "length [Str ''FOREIGNERS'', Str ''RETAIL'', Str ''RETAIL''] =
      length [Num (- 1), Num (5 / 2), Num 1 :: cell]"
    "length [Str ''Others'', Str ''BANK'', Str ''OIL''] =
      length [Num (- 1), Num (5 / 2), Num 1 :: cell]"
    by simp_all
  have num: "list_all numeric [Num (- 1), Num (5 / 2), Num 1]"
    by simp
  have nan: "NaN \<notin> set [Str ''FOREIGNERS'', Str ''RETAIL'', Str ''RETAIL'']"
    by simp
  note th = ranked_sectors[OF stable_argsort_descending example_mixed_summary_loaded cols len
      num nan]
  have one: "\<exists>srt. get_top_bottom_sectors stable_argsort example_mixed_loaded (Str ''RETAIL'') 1 =
             Inr (example_bank, example_oil) \<and>
          mset srt = mset [((Str ''RETAIL'', Str ''BANK''), Num (5 / 2)),
                           ((Str ''RETAIL'', Str ''OIL''), Num 1)] \<and>
          sorted_wrt (\<lambda>x y. amount (snd x) \<ge> amount (snd y)) srt \<and>
          sector_rows example_bank = take 1 srt \<and>
          sector_rows example_oil = drop (length srt - 1) srt \<and>
          length (sector_rows example_bank) = min 1 (length srt)"
  proof -
    have "0 < (1::int)" by simp
    from th[OF this, of "Str ''RETAIL''"] obtain top bottom srt where
      h: "get_top_bottom_sectors stable_argsort example_mixed_loaded (Str ''RETAIL'') 1 =
            Inr (top, bottom)"
         "mset srt = mset (filter (\<lambda>kx. fst (fst kx) = Str ''RETAIL'')
            (sector_rows example_mixed_summary))"
         "sorted_wrt (\<lambda>x y. amount (snd x) \<ge> amount (snd y)) srt"
         "sector_rows top = take (nat 1) srt"
         "sector_rows bottom = drop (length srt - nat 1) srt"
         "length (sector_rows top) = min (nat 1) (length srt)"
      by (elim exE conjE) (rule that)
    from h(1) have tb: "top = example_bank" "bottom = example_oil"
      by (simp_all add: example_top_one)
    have 2: "mset srt = mset [((Str ''RETAIL'', Str ''BANK''), Num (5 / 2)),
                           ((Str ''RETAIL'', Str ''OIL''), Num 1)]"
      using h(2) unfolding example_retail_rows .
    have 4: "sector_rows example_bank = take 1 srt"
      using h(4) unfolding tb by simp
    have 5: "sector_rows example_oil = drop (length srt - 1) srt"
      using h(5) unfolding tb by simp
    have 6: "length (sector_rows example_bank) = min 1 (length srt)"
      using h(6) unfolding tb by simp
    show ?thesis
      apply (rule exI[of _ srt])
      apply (intro conjI)
           apply (fact example_top_one 2 h(3) 4 5 6)+
      done
  qed
  have three: "\<exists>srt. get_top_bottom_sectors stable_argsort example_mixed_loaded (Str ''RETAIL'') 3 =
             Inr (example_retail, example_retail) \<and>
          length srt = 2 \<and> sector_rows example_retail = srt"
  proof -
    have "0 < (3::int)" by simp
    from th[OF this, of "Str ''RETAIL''"] obtain top bottom srt where
      h: "get_top_bottom_sectors stable_argsort example_mixed_loaded (Str ''RETAIL'') 3 =
            Inr (top, bottom)"
         "mset srt = mset (filter (\<lambda>kx. fst (fst kx) = Str ''RETAIL'')
            (sector_rows example_mixed_summary))"
         "length srt \<le> nat 3 \<longrightarrow> sector_rows top = srt \<and> sector_rows bottom = srt"
      by (elim exE conjE) (rule that)
    from h(1) have tb: "top = example_retail"
      by (simp add: example_top_three)
    have "size (mset srt) = 2"
      unfolding h(2) example_retail_rows by simp
    then have l: "length srt = 2"
      by simp
    with h(3) have "sector_rows example_retail = srt"
      unfolding tb by simp
    with l show ?thesis
      using example_top_three by (intro exI[of _ srt] conjI)
  qed
  have nobody: "sector_rows example_nobody = []"
  proof -
    have "0 < (3::int)" by simp
    from th[OF this, of "Str ''NOBODY''"] obtain top bottom where
      h: "get_top_bottom_sectors stable_argsort example_mixed_loaded (Str ''NOBODY'') 3 =
            Inr (top, bottom)"
         "filter (\<lambda>kx. fst (fst kx) = Str ''NOBODY'') (sector_rows example_mixed_summary) = [] \<longrightarrow>
            sector_rows top = [] \<and> sector_rows bottom = []"
      by (elim exE conjE) (rule that)
    from h(1) have tb: "top = example_nobody"
      by (simp add: example_top_nobody)
    from h(2) show ?thesis
      unfolding tb example_nobody_rows by simp
  qed
  show ?thesis
    apply (intro conjI)
        apply (fact stable_argsort_descending example_mixed_process one three example_top_nobody nobody)+
    done
qed

section \<open>Repeated loads\<close>

lemma cell_key_inj: "cell_key a = cell_key b \<Longrightarrow> a = b"
  by (cases a; cases b) simp_all

lemma pair_key_inj: "inj pair_key"
proof (rule injI)
  fix x y assume "pair_key x = pair_key y"
  then have "cell_key (fst x) = cell_key (fst y)" "cell_key (snd x) = cell_key (snd y)"
    by (simp_all add: pair_key_def)
  then have "fst x = fst y" "snd x = snd y"
    by (auto dest: cell_key_inj)
  then show "x = y"
    by (rule prod_eqI)
qed

lemma pair_key_same_fst:
  "pair_key (c, a) < pair_key (c, b) \<longleftrightarrow> cell_key a < cell_key b"
  by (simp add: pair_key_def less_prod_def)

lemma cell_key_Str: "cell_key (Str a) < cell_key (Str b) \<longleftrightarrow> a < b"
  by (simp add: less_prod_def)

lemma group_keys_strict:
  assumes "inj kf"
  shows "sorted_wrt (\<lambda>x y. kf x < kf y) (group_keys kf ks)"
proof -
  have "distinct (map kf (group_keys kf ks))"
    using assms by (simp add: distinct_map inj_on_def inj_def)
  with sorted_group_keys[of kf ks] have "sorted_wrt (<) (map kf (group_keys kf ks))"
    by (simp add: strict_sorted_iff)
  then show ?thesis
    by (simp add: sorted_wrt_map)
qed

lemma summary_order:
  assumes "summary_of df = Inr v"
  shows "sorted_wrt (\<lambda>x y. pair_key x < pair_key y) (map fst (sector_rows v))"
    and "sorted_wrt (\<lambda>x y. cell_key x < cell_key y)
           (map (\<lambda>kx. snd (fst kx)) (filter (\<lambda>kx. fst (fst kx) = c) (sector_rows v)))"
proof -
  from summary_of_Inr[OF assms] obtain g where
    g: "groupby_sum pair_key pair_notna (sector_rows df) = Inr g"
       "list_all2 (\<lambda>kv kx. fst kx = fst kv \<and> scale (snd kv) = Inr (snd kx)) g (sector_rows v)"
    by (elim exE conjE) (rule that)
  show 1: "sorted_wrt (\<lambda>x y. pair_key x < pair_key y) (map fst (sector_rows v))"
    unfolding scaled_groups(1)[OF g] by (rule group_keys_strict[OF pair_key_inj])
  have "map (\<lambda>kx. snd (fst kx)) (filter (\<lambda>kx. fst (fst kx) = c) (sector_rows v)) =
      map snd (filter (\<lambda>k. fst k = c) (map fst (sector_rows v)))"
    by (simp add: filter_map comp_def)
  moreover have "sorted_wrt (\<lambda>x y. pair_key x < pair_key y)
      (filter (\<lambda>k. fst k = c) (map fst (sector_rows v)))"
    using 1 by (rule sorted_wrt_filter)
  then have "sorted_wrt (\<lambda>x y. cell_key (snd x) < cell_key (snd y))
      (filter (\<lambda>k. fst k = c) (map fst (sector_rows v)))"
  proof (rule sorted_wrt_mono_rel[rotated])
    fix x y
    assume "x \<in> set (filter (\<lambda>k. fst k = c) (map fst (sector_rows v)))"
      "y \<in> set (filter (\<lambda>k. fst k = c) (map fst (sector_rows v)))"
      "pair_key x < pair_key y"
    then have "fst x = c" "fst y = c" "pair_key x < pair_key y"
      by simp_all
    then have "pair_key (c, snd x) < pair_key (c, snd y)"
      by (metis prod.collapse)
    then show "cell_key (snd x) < cell_key (snd y)"
      by (simp only: pair_key_same_fst)
  qed
  ultimately show "sorted_wrt (\<lambda>x y. cell_key x < cell_key y)
           (map (\<lambda>kx. snd (fst kx)) (filter (\<lambda>kx. fst (fst kx) = c) (sector_rows v)))"
    by (simp add: sorted_wrt_map)
qed

lemma load_data_True:
  "load_data conv x s = (True, r) \<longleftrightarrow>
   (\<exists>raw df. read_excel x = Inr raw \<and> clean_frame conv raw = Inr df \<and>
      process_data (s\<lparr>data := Some df\<rparr>) = Done r)"
proof (cases "read_excel x")
  case (Inl e)
  then show ?thesis by (simp add: load_data_cases)
next
  case (Inr raw)
  show ?thesis
  proof (cases "clean_data conv (s\<lparr>data := Some raw\<rparr>)")
    case (Raised e s1)
    then have "\<And>df. clean_frame conv raw \<noteq> Inr df"
      using clean_data_Done[of conv "s\<lparr>data := Some raw\<rparr>"] by auto
    with Inr Raised show ?thesis by (simp add: load_data_cases)
  next
    case (Done s1)
    then obtain df where df: "clean_frame conv raw = Inr df" "s1 = s\<lparr>data := Some df\<rparr>"
      unfolding clean_data_Done by auto
    with Inr Done show ?thesis
      by (cases "process_data (s\<lparr>data := Some df\<rparr>)") (simp_all add: load_data_cases)
  qed
qed

lemma process_data_state:
  assumes "process_data (s1\<lparr>data := Some df\<rparr>) = Done r1"
  shows "\<exists>r2. process_data (s2\<lparr>data := Some df\<rparr>) = Done r2 \<and> r2 = r1"
proof -
  from assms obtain v t vt d e where
    h: "summary_of df = Inr v"
       "type_sums ''NET R$'' df = Inr t" "type_sums ''TOTAL'' df = Inr vt"
       "\<exists>pv. daily_pivot df = Inr pv \<and> dense_of pv = Inr d"
       "\<exists>pv. sector_pivot df = Inr pv \<and> dense_of pv = Inr e"
       "r1 = s1\<lparr>data := Some df, net_sector_summary := Some v, total_net_by_type := Some t,
              volume_total_by_type := Some vt, daily_evolution := Some d,
              evol_sector := Some e\<rparr>"
    unfolding process_data_Done by auto
  let ?r2 = "s2\<lparr>data := Some df, net_sector_summary := Some v, total_net_by_type := Some t,
              volume_total_by_type := Some vt, daily_evolution := Some d,
              evol_sector := Some e\<rparr>"
  have d: "data (s2\<lparr>data := Some df\<rparr>) = Some df" by simp
  have "process_data (s2\<lparr>data := Some df\<rparr>) = Done ?r2"
    unfolding process_data_Done
    apply (rule exI[of _ df], rule exI[of _ v], rule exI[of _ t], rule exI[of _ vt],
        rule exI[of _ d], rule exI[of _ e])
    apply (intro conjI)
          apply (fact d h(1) h(2) h(3) h(4) h(5) refl)+
    done
  moreover have "?r2 = r1"
    unfolding h(6) by simp
  ultimately show ?thesis by simp
qed


lemma load_data_again:
  assumes "load_data conv x sa = (True, ra)" and "load_data conv x sb = (okb, rb)"
  shows "okb = True \<and> rb = ra"
proof -
  from assms(1) obtain raw df where
    h: "read_excel x = Inr raw" "clean_frame conv raw = Inr df"
       "process_data (sa\<lparr>data := Some df\<rparr>) = Done ra"
    unfolding load_data_True by (elim exE conjE) (rule that)
  from process_data_state[OF h(3), of sb] have "process_data (sb\<lparr>data := Some df\<rparr>) = Done ra"
    by simp
  with h(1,2) have "load_data conv x sb = (True, ra)"
    unfolding load_data_True by (intro exI conjI)
  with assms(2) show ?thesis by simp
qed

text \<open>
  C9. Two loads of the same file, whatever the object held before each of them, end the
  same way: both return \<open>False\<close>, or both return \<open>True\<close> and leave the same object, so the
  sector summary is the same table, in the same order, and \<^verbatim>\<open>get_top_bottom_sectors\<close>
  returns the same two tables for every category and \<open>n\<close> (with the library's argsort, a
  function of the column it sorts, so equal amounts come out in the same order both
  times). The order of the summary is the reference order: its (category, sector) keys
  ascend strictly, so within a category the sector labels ascend strictly, which for
  strings is the lexicographic order.
\<close>

theorem repeated_loads_agree:
  assumes "load_data conv x s1 = (ok1, r1)" and "load_data conv x s2 = (ok2, r2)"
    and "\<forall>raw. read_excel x = Inr raw \<longrightarrow> wellformed (rename raw column_mapping)"
  shows "ok1 = ok2 \<and>
    (ok1 \<longrightarrow>
       r1 = r2 \<and>
       get_top_bottom_sectors argsort r1 c n = get_top_bottom_sectors argsort r2 c n \<and>
       (\<exists>v. net_sector_summary r1 = Some v \<and> net_sector_summary r2 = Some v \<and>
          sorted_wrt (\<lambda>x y. pair_key x < pair_key y) (map fst (sector_rows v)) \<and>
          sorted_wrt (\<lambda>x y. cell_key x < cell_key y)
            (map (\<lambda>kx. snd (fst kx)) (filter (\<lambda>kx. fst (fst kx) = c) (sector_rows v)))))"
proof (cases ok1)
  case False
  have "\<not> ok2"
  proof
    assume "ok2"
    with assms(2) have "load_data conv x s2 = (True, r2)" by simp
    from load_data_again[OF this assms(1)] False show False by simp
  qed
  with False show ?thesis by simp
next
  case True
  with assms(1) have l: "load_data conv x s1 = (True, r1)" by simp
  from load_data_again[OF l assms(2)] have e: "ok2 = True" "r2 = r1" by simp_all
  from l obtain raw df where
    h: "process_data (s1\<lparr>data := Some df\<rparr>) = Done r1"
    unfolding load_data_True by (elim exE conjE) (rule that)
  then obtain v where
    v: "summary_of df = Inr v" "net_sector_summary r1 = Some v"
    unfolding process_data_Done by auto
  note o = summary_order(1)[OF v(1)] summary_order(2)[OF v(1), of c]
  have "\<exists>v. net_sector_summary r1 = Some v \<and> net_sector_summary r2 = Some v \<and>
          sorted_wrt (\<lambda>x y. pair_key x < pair_key y) (map fst (sector_rows v)) \<and>
          sorted_wrt (\<lambda>x y. cell_key x < cell_key y)
            (map (\<lambda>kx. snd (fst kx)) (filter (\<lambda>kx. fst (fst kx) = c) (sector_rows v)))"
    using v(2) o unfolding e(2) by (intro exI[of _ v] conjI)
  with True e show ?thesis
    by simp
qed

lemma example_mixed_load:
  "load_data (\<lambda>c. None) (Sheet example_mixed_sheet) init = (True, example_mixed_loaded)"
  by code_simp

lemma example_mixed_reload:
  "load_data (\<lambda>c. None) (Sheet example_mixed_sheet) example_loaded = (True, example_mixed_loaded)"
  by code_simp

text \<open>
  The theorem at two loads of the sheet where \<open>RETAIL\<close> trades in two sectors, one into a
  new object and one into an object that holds the views of another table.
\<close>

theorem repeated_loads_agree_witness:
  "load_data (\<lambda>c. None) (Sheet example_mixed_sheet) init = (True, example_mixed_loaded) \<and>
   load_data (\<lambda>c. None) (Sheet example_mixed_sheet) example_loaded =
     (True, example_mixed_loaded) \<and>
   wellformed (rename example_mixed_sheet column_mapping) \<and>
   data init = None \<and> data example_loaded = Some example_canonical \<and>
   net_sector_summary example_mixed_loaded = Some example_mixed_summary \<and>
   map (\<lambda>kx. snd (fst kx))
     (filter (\<lambda>kx. fst (fst kx) = Str ''RETAIL'') (sector_rows example_mixed_summary)) =
     [Str ''BANK'', Str ''OIL''] \<and>
   sorted_wrt (\<lambda>x y. cell_key x < cell_key y) [Str ''BANK'', Str ''OIL'']"
proof -
  have wf: "\<forall>raw. read_excel (Sheet example_mixed_sheet) = Inr raw \<longrightarrow>
      wellformed (rename raw column_mapping)"
    by (simp add: example_mixed_wellformed)
  from repeated_loads_agree[OF example_mixed_load example_mixed_reload wf,
      of stable_argsort "Str ''RETAIL''" 1]
  obtain v where
    h: "net_sector_summary example_mixed_loaded = Some v"
       "sorted_wrt (\<lambda>x y. cell_key x < cell_key y)
            (map (\<lambda>kx. snd (fst kx))
               (filter (\<lambda>kx. fst (fst kx) = Str ''RETAIL'') (sector_rows v)))"
    by auto
  from h(1) have v: "v = example_mixed_summary"
    by (simp add: example_mixed_summary_loaded)
  have m: "map (\<lambda>kx. snd (fst kx))
     (filter (\<lambda>kx. fst (fst kx) = Str ''RETAIL'') (sector_rows example_mixed_summary)) =
     [Str ''BANK'', Str ''OIL'']"
    unfolding example_retail_rows by simp
  have s: "sorted_wrt (\<lambda>x y. cell_key x < cell_key y) [Str ''BANK'', Str ''OIL'']"
    using h(2) unfolding v m .
  have d: "data init = None" "data example_loaded = Some example_canonical"
    by (simp_all add: init_def example_loaded_def)
  show ?thesis
    apply (intro conjI)
           apply (fact example_mixed_load example_mixed_reload example_mixed_wellformed d
        example_mixed_summary_loaded m s)+
    done
qed

end
